theory Spec2Isabelle
  imports Complex_Main "HOL-Library.Multiset"
begin

section \<open>Folder statistics of the image browser: a shallow embedding\<close>

text \<open>
  The development follows \<^verbatim>\<open>scripts/iib/folder_stats.py\<close> (the text analyser and the
  statistics aggregator) and \<^verbatim>\<open>scripts/iib/folder_stats_bg.py\<close> (the background job
  scheduler). Python strings are modelled as \<^typ>\<open>string\<close>, one \<^typ>\<open>char\<close> per code point;
  the character classes below are those of Python's \<^verbatim>\<open>re\<close> and \<^verbatim>\<open>str\<close> on ASCII text
  (code points below 128). Exceptions are values of the type \<open>error\<close>, and a function
  that can raise returns a sum with the error on the left.
\<close>

subsection \<open>Characters\<close>

definition code :: "char \<Rightarrow> nat" where
  "code c = of_char c"

definition is_upper :: "char \<Rightarrow> bool" where
  "is_upper c = (65 \<le> code c \<and> code c \<le> 90)"

definition is_lower :: "char \<Rightarrow> bool" where
  "is_lower c = (97 \<le> code c \<and> code c \<le> 122)"

definition is_digit :: "char \<Rightarrow> bool" where
  "is_digit c = (48 \<le> code c \<and> code c \<le> 57)"

text \<open>\<^verbatim>\<open>str.lower()\<close> on one character.\<close>

definition lower_char :: "char \<Rightarrow> char" where
  "lower_char c = (if is_upper c then char_of (code c + 32) else c)"

definition lower :: "string \<Rightarrow> string" where
  "lower s = map lower_char s"

text \<open>The class \<^verbatim>\<open>[a-z0-9]\<close>, the class \<^verbatim>\<open>\w\<close> and the class \<^verbatim>\<open>[\w-]\<close>.\<close>

definition is_lead :: "char \<Rightarrow> bool" where
  "is_lead c = (is_lower c \<or> is_digit c)"

definition is_word_char :: "char \<Rightarrow> bool" where
  "is_word_char c = (is_lower c \<or> is_upper c \<or> is_digit c \<or> c = CHR ''_'')"

definition is_word_or_hyphen :: "char \<Rightarrow> bool" where
  "is_word_or_hyphen c = (is_word_char c \<or> c = CHR ''-'')"

subsection \<open>The text analyser\<close>

text \<open>
  \<^verbatim>\<open>re.findall(r'\b[a-z0-9][\w-]*\b', s)\<close>, as the matcher runs it. The assertion \<^verbatim>\<open>\b\<close>
  holds between two neighbouring positions when exactly one of them holds a word
  character; the position before the text and the one after it hold none.
\<close>

definition is_word_opt :: "char option \<Rightarrow> bool" where
  "is_word_opt x = (case x of None \<Rightarrow> False | Some c \<Rightarrow> is_word_char c)"

definition word_boundary :: "char option \<Rightarrow> char option \<Rightarrow> bool" where
  "word_boundary before after = (is_word_opt before \<noteq> is_word_opt after)"

definition peek :: "string \<Rightarrow> char option" where
  "peek s = (case s of [] \<Rightarrow> None | c # _ \<Rightarrow> Some c)"

text \<open>
  The greedy \<^verbatim>\<open>[\w-]*\<close> has consumed \<open>rev consumed\<close> and stands before \<open>rest\<close>; the
  closing \<^verbatim>\<open>\b\<close> is tried there, and on failure the star gives its last character
  back. The first character belongs to \<^verbatim>\<open>[a-z0-9]\<close> and cannot be given back.
\<close>

fun backtrack :: "string \<Rightarrow> string \<Rightarrow> string option" where
  "backtrack [] rest = None"
| "backtrack (x # consumed) rest =
     (if word_boundary (Some x) (peek rest) then Some (rev (x # consumed))
      else backtrack consumed (x # rest))"

text \<open>One match attempt at a position, \<open>before\<close> being the character in front of it.\<close>

definition match_at :: "char option \<Rightarrow> string \<Rightarrow> string option" where
  "match_at before s =
     (case s of
        [] \<Rightarrow> None
      | c # cs \<Rightarrow>
          if word_boundary before (Some c) \<and> is_lead c
          then backtrack (rev (c # takeWhile is_word_or_hyphen cs))
                 (dropWhile is_word_or_hyphen cs)
          else None)"

text \<open>
  The scan of \<^verbatim>\<open>findall\<close>: after a match the search resumes at the match's end, after a
  failed attempt one character further.
\<close>

fun findall_words :: "char option \<Rightarrow> string \<Rightarrow> string list" where
  "findall_words before [] = []"
| "findall_words before (c # cs) =
     (case match_at before (c # cs) of
        Some tok \<Rightarrow> tok # findall_words (Some (last tok)) (drop (length tok - 1) cs)
      | None \<Rightarrow> findall_words (Some c) cs)"

text \<open>
  \<^verbatim>\<open>extract_words_from_text(text, stopwords, min_length)\<close>; \<open>None\<close> is Python's \<^verbatim>\<open>None\<close>,
  which \<^verbatim>\<open>if not text\<close> treats as the empty string.
\<close>

definition extract_words_from_text :: "string option \<Rightarrow> string set \<Rightarrow> int \<Rightarrow> string list" where
  "extract_words_from_text text stopwords min_length =
     (case text of
        None \<Rightarrow> []
      | Some t \<Rightarrow>
          if t = [] then []
          else
            let words = findall_words None (lower t)
            in filter (\<lambda>word. int (length word) \<ge> min_length \<and> word \<notin> stopwords) words)"


subsection \<open>Positive prompt\<close>

text \<open>\<^verbatim>\<open>sep in s\<close> on strings, and \<^verbatim>\<open>s.split(sep)[0]\<close>: the text before the first \<open>sep\<close>.\<close>

definition starts_with :: "string \<Rightarrow> string \<Rightarrow> bool" where
  "starts_with sep s = (take (length sep) s = sep)"

fun contains :: "string \<Rightarrow> string \<Rightarrow> bool" where
  "contains sep [] = (sep = [])"
| "contains sep (c # cs) = (starts_with sep (c # cs) \<or> contains sep cs)"

fun before_first :: "string \<Rightarrow> string \<Rightarrow> string" where
  "before_first sep [] = []"
| "before_first sep (c # cs) = (if starts_with sep (c # cs) then [] else c # before_first sep cs)"

text \<open>
  The positive prompt of a metadata blob, as \<^verbatim>\<open>analyze_prompt_words\<close> cuts it out
  (\<^verbatim>\<open>prompt_text\<close> in the source).
\<close>

definition positive_prompt :: "string \<Rightarrow> string" where
  "positive_prompt exif_data =
     (if contains ''\<newline>Negative prompt:'' exif_data
      then before_first ''\<newline>Negative prompt:'' exif_data
      else if contains ''\<newline>Steps:'' exif_data
      then before_first ''\<newline>Steps:'' exif_data
      else exif_data)"

subsection \<open>Errors\<close>

datatype error =
    ValueError string
  | AttributeError string
  | ZeroDivisionError
  | DatabaseError string

text \<open>\<^verbatim>\<open>str(e)\<close>.\<close>

fun str_error :: "error \<Rightarrow> string" where
  "str_error (ValueError m) = m"
| "str_error (AttributeError m) = m"
| "str_error ZeroDivisionError = ''division by zero''"
| "str_error (DatabaseError m) = m"

text \<open>A list comprehension whose element expression can raise.\<close>

fun map_result :: "('a \<Rightarrow> error + 'b) \<Rightarrow> 'a list \<Rightarrow> error + 'b list" where
  "map_result f [] = Inr []"
| "map_result f (x # xs) =
     (case f x of
        Inl e \<Rightarrow> Inl e
      | Inr y \<Rightarrow> (case map_result f xs of Inl e \<Rightarrow> Inl e | Inr ys \<Rightarrow> Inr (y # ys)))"

subsection \<open>Percentages\<close>

text \<open>
  Numbers that are floats in the source are rationals here, computed exactly.
  \<^verbatim>\<open>a / b\<close> raises on a zero divisor; \<^verbatim>\<open>round(x, 2)\<close> rounds to the nearest hundredth,
  a tie to the even one. The double of the source is off the exact quotient by a
  relative error near \<open>2\<^sup>-\<^sup>5\<^sup>2\<close>, which moves the rounded hundredth only where the
  exact value stands next to a tie.
\<close>

definition truediv :: "int \<Rightarrow> int \<Rightarrow> error + rat" where
  "truediv a b = (if b = 0 then Inl ZeroDivisionError else Inr (rat_of_int a / rat_of_int b))"

definition round_half_even :: "rat \<Rightarrow> int" where
  "round_half_even x =
     (let f = \<lfloor>x\<rfloor>; d = x - rat_of_int f
      in if d < 1 / 2 then f else if 1 / 2 < d then f + 1 else if even f then f else f + 1)"

definition round2 :: "rat \<Rightarrow> rat" where
  "round2 x = rat_of_int (round_half_even (x * 100)) / 100"

text \<open>\<^verbatim>\<open>round((count / total * 100), 2) if total > 0 else 0\<close>.\<close>

definition percentage_of :: "int \<Rightarrow> int \<Rightarrow> error + rat" where
  "percentage_of n total_n =
     (if total_n > 0
      then (case truediv n total_n of Inl e \<Rightarrow> Inl e | Inr q \<Rightarrow> Inr (round2 (q * 100)))
      else Inr 0)"

subsection \<open>The catalog\<close>

text \<open>
  The tables the queries read. The schema is declared in \<^verbatim>\<open>scripts/iib/db/datamodel.py\<close>;
  here a row of \<^verbatim>\<open>image\<close> holds the four columns the queries name (the date as a
  number), \<^verbatim>\<open>tag\<close> is keyed by its \<^verbatim>\<open>id\<close>, and \<^verbatim>\<open>image_tag\<close> is a list of
  \<open>(image_id, tag_id)\<close> links.
\<close>

record image_row =
  img_id :: int
  img_path :: string
  img_date :: int
  img_exif :: "string option"

record tag_row =
  t_name :: string
  t_type :: string

datatype json =
    JNull
  | JBool bool
  | JNumber int
  | JString string
  | JArray "json list"
  | JObject "(string \<times> json) list"

text \<open>The places where a statement is executed on the connection.\<close>

datatype call_site =
    MediaImages
  | MediaTagged
  | TagsImages
  | TagsCounts
  | PromptRows
  | MetadataRows
  | GetSetting
  | SaveSetting

type_synonym tag_count_row = "int \<times> string \<times> string \<times> int"

text \<open>
  A connection: the tables, the settings store, and what the database engine is free
  to choose. \<open>faults\<close> names the call sites whose statement raises, with the exception's
  message (a locked database, or more parameters than the engine takes). SQL leaves the order of rows with equal sort keys open, so the two
  \<^verbatim>\<open>ORDER BY\<close> clauses of the source are the engine's functions
  \<open>order_by_date_desc\<close> and \<open>order_by_count_desc\<close>; \<open>engine_ok\<close> says that they sort.
\<close>

record conn =
  image_table :: "image_row list"
  tag_table :: "int \<rightharpoonup> tag_row"
  image_tag_table :: "(int \<times> int) list"
  global_setting :: "string \<rightharpoonup> json"
  faults :: "call_site \<rightharpoonup> string"
  order_by_date_desc :: "image_row list \<Rightarrow> image_row list"
  order_by_count_desc :: "tag_count_row list \<Rightarrow> tag_count_row list"

definition row_count :: "tag_count_row \<Rightarrow> int" where
  "row_count row = snd (snd (snd row))"

definition count_order_ok :: "(tag_count_row list \<Rightarrow> tag_count_row list) \<Rightarrow> bool" where
  "count_order_ok f =
     (\<forall>rows. mset (f rows) = mset rows
        \<and> sorted_wrt (\<lambda>a b. row_count a \<ge> row_count b) (f rows))"

definition date_order_ok :: "(image_row list \<Rightarrow> image_row list) \<Rightarrow> bool" where
  "date_order_ok f =
     (\<forall>rows. mset (f rows) = mset rows
        \<and> sorted_wrt (\<lambda>a b. img_date a \<ge> img_date b) (f rows))"

definition engine_ok :: "conn \<Rightarrow> bool" where
  "engine_ok c = (date_order_ok (order_by_date_desc c) \<and> count_order_ok (order_by_count_desc c))"

text \<open>Executing a statement at a call site: it raises, or it yields its rows.\<close>

definition cursor_execute :: "conn \<Rightarrow> call_site \<Rightarrow> 'a \<Rightarrow> error + 'a" where
  "cursor_execute c site rows =
     (case faults c site of Some msg \<Rightarrow> Inl (DatabaseError msg) | None \<Rightarrow> Inr rows)"

text \<open>
  SQLite's \<^verbatim>\<open>LIKE\<close>: \<^verbatim>\<open>%\<close> stands for any text, \<^verbatim>\<open>_\<close> for any one character, and
  letters match without regard to case.
\<close>

fun like :: "string \<Rightarrow> string \<Rightarrow> bool" where
  "like [] [] = True"
| "like [] (c # cs) = False"
| "like (p # ps) [] = (p = CHR ''%'' \<and> like ps [])"
| "like (p # ps) (c # cs) =
     (if p = CHR ''%'' then like ps (c # cs) \<or> like (p # ps) cs
      else (p = CHR ''_'' \<or> lower_char p = lower_char c) \<and> like ps cs)"

text \<open>\<^verbatim>\<open>LIMIT n\<close>: a negative \<open>n\<close> is no bound.\<close>

definition sql_limit :: "int \<Rightarrow> 'a list \<Rightarrow> 'a list" where
  "sql_limit n rows = (if n < 0 then rows else take (nat n) rows)"

text \<open>\<^verbatim>\<open>if limit:\<close> on an optional integer.\<close>

definition truthy :: "int option \<Rightarrow> bool" where
  "truthy limit = (case limit of None \<Rightarrow> False | Some n \<Rightarrow> n \<noteq> 0)"

text \<open>
  \<^verbatim>\<open>SELECT id, path FROM image WHERE path LIKE ? [ORDER BY date DESC LIMIT ?]\<close>,
  the second form when the limit is truthy.
\<close>

definition matching_images :: "conn \<Rightarrow> string \<Rightarrow> int option \<Rightarrow> image_row list" where
  "matching_images c path_pattern limit =
     (if truthy limit
      then sql_limit (the limit)
             (order_by_date_desc c (filter (\<lambda>r. like path_pattern (img_path r)) (image_table c)))
      else filter (\<lambda>r. like path_pattern (img_path r)) (image_table c))"

definition select_id_path :: "conn \<Rightarrow> string \<Rightarrow> int option \<Rightarrow> (int \<times> string) list" where
  "select_id_path c path_pattern limit =
     map (\<lambda>r. (img_id r, img_path r)) (matching_images c path_pattern limit)"

text \<open>
  \<^verbatim>\<open>SELECT path, exif FROM image WHERE path LIKE ? AND exif IS NOT NULL AND exif != ''\<close>,
  with \<^verbatim>\<open>ORDER BY date DESC LIMIT ?\<close> when the limit is truthy.
\<close>

definition has_exif :: "image_row \<Rightarrow> bool" where
  "has_exif r = (case img_exif r of None \<Rightarrow> False | Some e \<Rightarrow> e \<noteq> [])"

definition select_path_exif :: "conn \<Rightarrow> string \<Rightarrow> int option \<Rightarrow> (string \<times> string) list" where
  "select_path_exif c path_pattern limit =
     map (\<lambda>r. (img_path r, the (img_exif r)))
       (if truthy limit
        then sql_limit (the limit)
               (order_by_date_desc c
                  (filter (\<lambda>r. like path_pattern (img_path r) \<and> has_exif r) (image_table c)))
        else filter (\<lambda>r. like path_pattern (img_path r) \<and> has_exif r) (image_table c))"

text \<open>
  The join of \<^verbatim>\<open>image_tag\<close> with \<^verbatim>\<open>tag\<close> on the tag's id, restricted to the given
  images and to tags of type \<^verbatim>\<open>custom\<close>: one row per link.
\<close>

definition custom_links :: "conn \<Rightarrow> int list \<Rightarrow> (int \<times> int \<times> tag_row) list" where
  "custom_links c image_ids =
     concat (map (\<lambda>(iid, tid).
        if iid \<in> set image_ids
        then (case tag_table c tid of
                None \<Rightarrow> []
              | Some t \<Rightarrow> if t_type t = ''custom'' then [(iid, tid, t)] else [])
        else []) (image_tag_table c))"

text \<open>\<^verbatim>\<open>SELECT COUNT(DISTINCT it.image_id) ...\<close> of \<^verbatim>\<open>get_media_stats\<close>.\<close>

definition count_tagged :: "conn \<Rightarrow> int list \<Rightarrow> int" where
  "count_tagged c image_ids = int (length (remdups (map fst (custom_links c image_ids))))"

text \<open>\<^verbatim>\<open>GROUP BY tag.id\<close> with \<^verbatim>\<open>COUNT(*)\<close>: one row per tag id, counting its links.\<close>

fun add_to_group :: "int \<times> tag_row \<Rightarrow> tag_count_row list \<Rightarrow> tag_count_row list" where
  "add_to_group (tid, t) [] = [(tid, t_name t, t_type t, 1)]"
| "add_to_group (tid, t) ((i, n, ty, k) # groups) =
     (if i = tid then (i, n, ty, k + 1) # groups
      else (i, n, ty, k) # add_to_group (tid, t) groups)"

definition group_by_tag :: "(int \<times> int \<times> tag_row) list \<Rightarrow> tag_count_row list" where
  "group_by_tag links = foldl (\<lambda>groups link. add_to_group (snd link) groups) [] links"

text \<open>
  \<^verbatim>\<open>SELECT tag.id, tag.name, tag.type, COUNT(*) as count ... GROUP BY tag.id
  ORDER BY count DESC LIMIT ?\<close> of \<^verbatim>\<open>get_top_tags\<close>.
\<close>

definition select_tag_counts :: "conn \<Rightarrow> int list \<Rightarrow> int \<Rightarrow> tag_count_row list" where
  "select_tag_counts c image_ids limit =
     sql_limit limit (order_by_count_desc c (group_by_tag (custom_links c image_ids)))"

text \<open>
  Modelled from the spec: \<^verbatim>\<open>GlobalSetting.get_setting\<close> and \<^verbatim>\<open>GlobalSetting.save_setting\<close>
  of \<^verbatim>\<open>scripts/iib/db/datamodel.py\<close>, which is not among the sources. The spec has the
  catalog "read/write a named setting, stored as a serialized string value"; the
  store maps a setting's name to the JSON document whose serialisation is stored, a
  read of a name never written yields \<^verbatim>\<open>None\<close>, and a write replaces the document.
\<close>

definition get_setting :: "conn \<Rightarrow> string \<Rightarrow> error + json option" where
  "get_setting c name = cursor_execute c GetSetting (global_setting c name)"


subsection \<open>The operating system and the collaborators\<close>

record dir_entry =
  entry_name :: string
  entry_is_file :: "bool option"
  entry_is_dir :: "bool option"
  entry_size :: "int option"

text \<open>
  What the code asks of \<^verbatim>\<open>os\<close> and \<^verbatim>\<open>os.path\<close>, of \<^verbatim>\<open>scripts.iib.tool\<close> and of
  \<^verbatim>\<open>DataBase.get_conn\<close>. A size or a flag that is \<open>None\<close> stands for a call that
  raises \<^verbatim>\<open>OSError\<close>, and \<open>get_conn\<close> and \<open>scandir\<close> can raise; the other calls
  are taken to return.
\<close>

record env =
  sep :: char
  normpath :: "string \<Rightarrow> string"
  relpath :: "string \<Rightarrow> string \<Rightarrow> string"
  path_exists :: "string \<Rightarrow> bool"
  isdir :: "string \<Rightarrow> bool"
  path_join :: "string \<Rightarrow> string \<Rightarrow> string"
  walk :: "string \<Rightarrow> (string \<times> string list \<times> string list) list"
  getsize :: "string \<Rightarrow> int option"
  scandir :: "string \<Rightarrow> error + dir_entry list"
  is_media_file :: "string \<Rightarrow> bool"
  get_video_type :: "string \<Rightarrow> string option"
  get_conn :: "error + conn"


subsection \<open>Stopwords\<close>

definition DEFAULT_STOPWORDS :: "string list" where
  "DEFAULT_STOPWORDS =
     [''a'', ''an'', ''and'', ''are'', ''as'', ''at'', ''be'', ''by'', ''for'', ''from'', ''has'', ''he'',
      ''in'', ''is'', ''it'', ''its'', ''of'', ''on'', ''that'', ''the'', ''to'', ''was'', ''will'', ''with'',
      ''i'', ''you'', ''we'', ''they'', ''this'', ''but'', ''or'', ''not'', ''if'', ''can'', ''my'', ''your'',
      ''all'', ''one'', ''two'', ''more'', ''been'', ''have'', ''had'', ''do'', ''does'', ''done'', ''so'',
      ''up'', ''out'', ''about'', ''into'', ''through'', ''during'', ''before'', ''after'', ''above'',
      ''below'', ''between'', ''under'', ''again'', ''further'', ''then'', ''once'', ''there'', ''when'',
      ''where'', ''why'', ''how'', ''both'', ''each'', ''few'', ''more'', ''most'', ''other'', ''some'',
      ''such'', ''no'', ''nor'', ''only'', ''own'', ''same'', ''than'', ''too'', ''very'', ''just'']"

definition STOPWORDS_SETTING_KEY :: string where
  "STOPWORDS_SETTING_KEY = ''folder_stats_stopwords''"

text \<open>\<^verbatim>\<open>word.lower()\<close> on an element of the setting: only a string has the method.\<close>

definition word_lower :: "json \<Rightarrow> error + string" where
  "word_lower w =
     (case w of JString s \<Rightarrow> Inr (lower s) | _ \<Rightarrow> Inl (AttributeError ''lower''))"

text \<open>
  \<^verbatim>\<open>get_stopwords(conn)\<close>. The test \<^verbatim>\<open>setting and isinstance(setting, list)\<close> holds of a
  list that is not empty.
\<close>

definition get_stopwords :: "conn \<Rightarrow> error + string set" where
  "get_stopwords c =
     (case get_setting c STOPWORDS_SETTING_KEY of
        Inl ex \<Rightarrow> Inl ex
      | Inr setting \<Rightarrow>
          (case setting of
             Some (JArray (w # ws)) \<Rightarrow>
               (case map_result word_lower (w # ws) of
                  Inl ex \<Rightarrow> Inl ex
                | Inr words \<Rightarrow> Inr (set words))
           | _ \<Rightarrow> Inr (set DEFAULT_STOPWORDS)))"


subsection \<open>File and folder counts\<close>

record counts =
  file_count :: int
  subfolder_count :: int
  total_size_bytes :: int
  media_file_count :: int

definition zero_counts :: counts where
  "zero_counts = \<lparr>file_count = 0, subfolder_count = 0, total_size_bytes = 0, media_file_count = 0\<rparr>"

text \<open>The body of \<^verbatim>\<open>for file in files\<close>; a failing \<^verbatim>\<open>getsize\<close> leaves the file counted.\<close>

definition count_file :: "env \<Rightarrow> string \<Rightarrow> string \<Rightarrow> counts \<Rightarrow> counts" where
  "count_file e root_dir file k =
     (let k1 = k\<lparr>file_count := file_count k + 1\<rparr>;
          file_path = path_join e root_dir file
      in case getsize e file_path of
           None \<Rightarrow> k1
         | Some n \<Rightarrow>
             (let k2 = k1\<lparr>total_size_bytes := total_size_bytes k1 + n\<rparr>
              in if is_media_file e file
                 then k2\<lparr>media_file_count := media_file_count k2 + 1\<rparr> else k2))"

definition count_walk_step :: "env \<Rightarrow> string \<times> string list \<times> string list \<Rightarrow> counts \<Rightarrow> counts" where
  "count_walk_step e step k =
     (case step of (root_dir, dirs, files) \<Rightarrow>
        fold (count_file e root_dir) files
          (k\<lparr>subfolder_count := subfolder_count k + int (length dirs)\<rparr>))"

text \<open>The body of \<^verbatim>\<open>for entry in entries\<close> of the shallow scan.\<close>

definition count_entry :: "env \<Rightarrow> dir_entry \<Rightarrow> counts \<Rightarrow> counts" where
  "count_entry e entry k =
     (case entry_is_file entry of
        None \<Rightarrow> k
      | Some True \<Rightarrow>
          (let k1 = k\<lparr>file_count := file_count k + 1\<rparr>
           in case entry_size entry of
                None \<Rightarrow> k1
              | Some n \<Rightarrow>
                  (let k2 = k1\<lparr>total_size_bytes := total_size_bytes k1 + n\<rparr>
                   in if is_media_file e (entry_name entry)
                      then k2\<lparr>media_file_count := media_file_count k2 + 1\<rparr> else k2))
      | Some False \<Rightarrow>
          (case entry_is_dir entry of
             Some True \<Rightarrow> k\<lparr>subfolder_count := subfolder_count k + 1\<rparr>
           | _ \<Rightarrow> k))"

definition get_file_and_folder_counts :: "env \<Rightarrow> string \<Rightarrow> bool \<Rightarrow> counts" where
  "get_file_and_folder_counts e folder_path recursive =
     (if \<not> path_exists e folder_path \<or> \<not> isdir e folder_path then zero_counts
      else if recursive then fold (count_walk_step e) (walk e folder_path) zero_counts
      else (case scandir e folder_path of
              Inl ex \<Rightarrow> zero_counts
            | Inr entries \<Rightarrow> fold (count_entry e) entries zero_counts))"

subsection \<open>Media statistics\<close>

text \<open>The filter of the non-recursive mode: a direct child of the folder.\<close>

definition is_direct_child :: "env \<Rightarrow> string \<Rightarrow> string \<Rightarrow> bool" where
  "is_direct_child e folder_path img =
     (let rel_path = relpath e img folder_path
      in sep e \<notin> set rel_path \<and> rel_path \<noteq> ''.'')"

text \<open>\<^verbatim>\<open>if get_video_type(path)\<close>: the type is neither \<^verbatim>\<open>None\<close> nor empty.\<close>

definition is_video :: "env \<Rightarrow> string \<Rightarrow> bool" where
  "is_video e p = (case get_video_type e p of None \<Rightarrow> False | Some ty \<Rightarrow> ty \<noteq> [])"

record media_stats =
  total_images :: int
  total_videos :: int
  indexed_media :: int
  tagged_images :: int
  untagged_images :: int
  analyzed_count :: int
  limit_applied :: bool
  ms_error :: "string option"

definition empty_media_stats :: "int option \<Rightarrow> string option \<Rightarrow> media_stats" where
  "empty_media_stats limit err =
     \<lparr>total_images = 0, total_videos = 0, indexed_media = 0, tagged_images = 0,
      untagged_images = 0, analyzed_count = 0, limit_applied = (limit \<noteq> None), ms_error = err\<rparr>"

text \<open>The \<^verbatim>\<open>try\<close> block of \<^verbatim>\<open>get_media_stats\<close>.\<close>

definition media_stats_body ::
  "env \<Rightarrow> conn \<Rightarrow> string \<Rightarrow> string \<Rightarrow> bool \<Rightarrow> int option \<Rightarrow> error + media_stats" where
  "media_stats_body e c folder_path path_pattern recursive limit =
     (case cursor_execute c MediaImages (select_id_path c path_pattern limit) of
        Inl ex \<Rightarrow> Inl ex
      | Inr fetched \<Rightarrow>
          (let image_rows =
                 (if \<not> recursive
                  then filter (\<lambda>row. is_direct_child e folder_path (snd row)) fetched
                  else fetched);
               image_ids = map fst image_rows;
               n_images = int (length image_ids)
           in if n_images = 0 then Inr (empty_media_stats limit None)
              else
                (let n_videos = int (length (filter (\<lambda>row. is_video e (snd row)) image_rows));
                     n_images_only = n_images - n_videos
                 in case cursor_execute c MediaTagged (count_tagged c image_ids) of
                      Inl ex \<Rightarrow> Inl ex
                    | Inr tagged_count \<Rightarrow>
                        Inr \<lparr>total_images = n_images_only, total_videos = n_videos,
                             indexed_media = n_images, tagged_images = tagged_count,
                             untagged_images = n_images - tagged_count,
                             analyzed_count = n_images, limit_applied = (limit \<noteq> None),
                             ms_error = None\<rparr>)))"

definition get_media_stats :: "env \<Rightarrow> conn \<Rightarrow> string \<Rightarrow> bool \<Rightarrow> int option \<Rightarrow> media_stats" where
  "get_media_stats e c folder_path0 recursive limit =
     (let folder_path = normpath e folder_path0;
          path_pattern = folder_path @ [sep e] @ ''%''
      in case media_stats_body e c folder_path path_pattern recursive limit of
           Inr r \<Rightarrow> r
         | Inl ex \<Rightarrow> empty_media_stats limit (Some (str_error ex)))"

subsection \<open>The tag histogram\<close>

record tag_entry =
  tag_id :: int
  tag_name :: string
  tag_type :: string
  tag_count :: int
  tag_percentage :: rat

text \<open>The dictionary built for one row of the tag query.\<close>

definition tag_entry_of :: "int \<Rightarrow> tag_count_row \<Rightarrow> error + tag_entry" where
  "tag_entry_of total_tags row =
     (case row of (i, n, ty, k) \<Rightarrow>
        (case percentage_of k total_tags of
           Inl ex \<Rightarrow> Inl ex
         | Inr p \<Rightarrow>
             Inr \<lparr>tag_id = i, tag_name = n, tag_type = ty, tag_count = k, tag_percentage = p\<rparr>))"

text \<open>The images \<^verbatim>\<open>get_top_tags\<close> analyses: the rows fetched, after the child filter.\<close>

definition analyzed_rows ::
  "env \<Rightarrow> conn \<Rightarrow> string \<Rightarrow> bool \<Rightarrow> int option \<Rightarrow> (int \<times> string) list" where
  "analyzed_rows e c folder_path recursive max_images =
     (let fetched = select_id_path c (folder_path @ [sep e] @ ''%'') max_images
      in if \<not> recursive
         then filter (\<lambda>row. is_direct_child e folder_path (snd row)) fetched
         else fetched)"

text \<open>The \<^verbatim>\<open>try\<close> block of \<^verbatim>\<open>get_top_tags\<close>.\<close>

definition top_tags_body ::
  "env \<Rightarrow> conn \<Rightarrow> string \<Rightarrow> bool \<Rightarrow> int \<Rightarrow> int option \<Rightarrow> error + tag_entry list" where
  "top_tags_body e c folder_path recursive limit max_images =
     (case cursor_execute c TagsImages (analyzed_rows e c folder_path recursive max_images) of
        Inl ex \<Rightarrow> Inl ex
      | Inr image_rows \<Rightarrow>
          (let image_ids = map fst image_rows
           in if image_ids = [] then Inr []
              else
                (case cursor_execute c TagsCounts (select_tag_counts c image_ids limit) of
                   Inl ex \<Rightarrow> Inl ex
                 | Inr rows \<Rightarrow>
                     (let total_tags = sum_list (map row_count rows)
                      in map_result (tag_entry_of total_tags) rows))))"

definition get_top_tags ::
  "env \<Rightarrow> conn \<Rightarrow> string \<Rightarrow> bool \<Rightarrow> int \<Rightarrow> int option \<Rightarrow> tag_entry list" where
  "get_top_tags e c folder_path0 recursive limit max_images =
     (case top_tags_body e c (normpath e folder_path0) recursive limit max_images of
        Inr entries \<Rightarrow> entries
      | Inl ex \<Rightarrow> [])"

subsection \<open>The word histogram\<close>

text \<open>
  \<^verbatim>\<open>Counter(words)\<close> as the list of its items in insertion order, and
  \<^verbatim>\<open>most_common(n)\<close>: the items by falling count, equal counts in insertion order.
\<close>

fun counter_add :: "'a \<Rightarrow> ('a \<times> int) list \<Rightarrow> ('a \<times> int) list" where
  "counter_add w [] = [(w, 1)]"
| "counter_add w ((k, n) # items) =
     (if k = w then (k, n + 1) # items else (k, n) # counter_add w items)"

definition counter :: "'a list \<Rightarrow> ('a \<times> int) list" where
  "counter ws = foldl (\<lambda>items w. counter_add w items) [] ws"

definition most_common :: "int \<Rightarrow> ('a \<times> int) list \<Rightarrow> ('a \<times> int) list" where
  "most_common n items = take (nat n) (sort_key (\<lambda>item. - snd item) items)"

record word_entry =
  word :: string
  word_count :: int
  word_percentage :: rat

record prompt_analysis =
  total_prompts_analyzed :: int
  total_words_found :: "int option"
  top_words :: "word_entry list"
  pa_error :: "string option"

definition word_entry_of :: "int \<Rightarrow> string \<times> int \<Rightarrow> error + word_entry" where
  "word_entry_of total_words item =
     (case item of (w, k) \<Rightarrow>
        (case percentage_of k total_words of
           Inl ex \<Rightarrow> Inl ex
         | Inr p \<Rightarrow> Inr \<lparr>word = w, word_count = k, word_percentage = p\<rparr>))"

text \<open>The words of one row: those of its positive prompt.\<close>

definition row_words :: "string set \<Rightarrow> string \<times> string \<Rightarrow> string list" where
  "row_words stopwords row =
     (let exif_data = snd row
      in if exif_data \<noteq> []
         then extract_words_from_text (Some (positive_prompt exif_data)) stopwords 2
         else [])"

definition exif_rows ::
  "env \<Rightarrow> conn \<Rightarrow> string \<Rightarrow> bool \<Rightarrow> int option \<Rightarrow> (string \<times> string) list" where
  "exif_rows e c folder_path recursive max_images =
     (let fetched = select_path_exif c (folder_path @ [sep e] @ ''%'') max_images
      in if \<not> recursive
         then filter (\<lambda>row. is_direct_child e folder_path (fst row)) fetched
         else fetched)"

text \<open>The \<^verbatim>\<open>try\<close> block of \<^verbatim>\<open>analyze_prompt_words\<close>.\<close>

definition prompt_words_body ::
  "env \<Rightarrow> conn \<Rightarrow> string set \<Rightarrow> string \<Rightarrow> bool \<Rightarrow> int \<Rightarrow> int option \<Rightarrow> error + prompt_analysis" where
  "prompt_words_body e c stopwords folder_path recursive limit max_images =
     (case cursor_execute c PromptRows (exif_rows e c folder_path recursive max_images) of
        Inl ex \<Rightarrow> Inl ex
      | Inr rows \<Rightarrow>
          if rows = []
          then Inr \<lparr>total_prompts_analyzed = 0, total_words_found = None, top_words = [],
                    pa_error = None\<rparr>
          else
            (let all_words = concat (map (row_words stopwords) rows);
                 word_counts = counter all_words;
                 top = most_common limit word_counts;
                 total_words = sum_list (map snd word_counts)
             in case map_result (word_entry_of total_words) top of
                  Inl ex \<Rightarrow> Inl ex
                | Inr entries \<Rightarrow>
                    Inr \<lparr>total_prompts_analyzed = int (length rows),
                         total_words_found = Some (int (length word_counts)),
                         top_words = entries, pa_error = None\<rparr>))"

text \<open>
  \<^verbatim>\<open>analyze_prompt_words\<close>. The stopwords are read before the \<^verbatim>\<open>try\<close> block is
  entered, so an exception of that read leaves the function.
\<close>

definition analyze_prompt_words ::
  "env \<Rightarrow> conn \<Rightarrow> string \<Rightarrow> bool \<Rightarrow> int \<Rightarrow> int option \<Rightarrow> error + prompt_analysis" where
  "analyze_prompt_words e c folder_path0 recursive limit max_images =
     (case get_stopwords c of
        Inl ex \<Rightarrow> Inl ex
      | Inr stopwords \<Rightarrow>
          (case prompt_words_body e c stopwords (normpath e folder_path0) recursive limit max_images of
             Inr r \<Rightarrow> Inr r
           | Inl ex \<Rightarrow>
               Inr \<lparr>total_prompts_analyzed = 0, total_words_found = None, top_words = [],
                    pa_error = Some (str_error ex)\<rparr>))"


subsection \<open>The metadata summary\<close>

text \<open>
  The classes \<^verbatim>\<open>\s\<close> and \<^verbatim>\<open>[^\n,]\<close>, \<^verbatim>\<open>str.strip()\<close>, and a literal matched under
  \<^verbatim>\<open>re.IGNORECASE\<close>.
\<close>

definition is_space :: "char \<Rightarrow> bool" where
  "is_space c = ((9 \<le> code c \<and> code c \<le> 13) \<or> (28 \<le> code c \<and> code c \<le> 32))"

definition not_newline_comma :: "char \<Rightarrow> bool" where
  "not_newline_comma c = (c \<noteq> CHR 0x0A \<and> c \<noteq> CHR '','')"

definition strip :: "string \<Rightarrow> string" where
  "strip s = rev (dropWhile is_space (rev (dropWhile is_space s)))"

definition istarts_with :: "string \<Rightarrow> string \<Rightarrow> bool" where
  "istarts_with lit s = (lower (take (length lit) s) = lower lit)"

definition is_x :: "char \<Rightarrow> bool" where
  "is_x c = (c = CHR ''x'' \<or> c = CHR ''X'')"

text \<open>
  \<^verbatim>\<open>re.search\<close>: the match attempt \<open>m\<close> is made at every position from the left, the
  end of the text included, and the first success is the match.
\<close>

fun re_search :: "(string \<Rightarrow> 'a option) \<Rightarrow> string \<Rightarrow> 'a option" where
  "re_search m [] = m []"
| "re_search m (c # cs) = (case m (c # cs) of Some g \<Rightarrow> Some g | None \<Rightarrow> re_search m cs)"

text \<open>
  \<^verbatim>\<open>\s*([^\n,]+)\<close> on \<open>r\<close>, the star holding \<open>k\<close> characters: the group takes what it
  can, and when it can take nothing the star gives one character back.
\<close>

primrec capture_after_spaces :: "nat \<Rightarrow> string \<Rightarrow> string option" where
  "capture_after_spaces 0 r =
     (let cap = takeWhile not_newline_comma r in if cap = [] then None else Some cap)"
| "capture_after_spaces (Suc k) r =
     (let cap = takeWhile not_newline_comma (drop (Suc k) r)
      in if cap = [] then capture_after_spaces k r else Some cap)"

text \<open>\<^verbatim>\<open>Model:\s*([^\n,]+)\<close> at the start of \<open>s\<close>; the value is group 1.\<close>

definition match_model_key :: "string \<Rightarrow> string option" where
  "match_model_key s =
     (if istarts_with ''model:'' s
      then (let r = drop 6 s in capture_after_spaces (length (takeWhile is_space r)) r)
      else None)"

text \<open>A quoted group \<^verbatim>\<open>"(...)"\<close> whose content is the longest run of \<open>ok\<close> characters.\<close>

definition quoted_run :: "(char \<Rightarrow> bool) \<Rightarrow> string \<Rightarrow> string option" where
  "quoted_run ok r =
     (case r of
        [] \<Rightarrow> None
      | q # r1 \<Rightarrow>
          (let cap = takeWhile ok r1
           in if q = CHR 0x22 \<and> cap \<noteq> [] \<and> starts_with [CHR 0x22] (drop (length cap) r1)
              then Some cap else None))"

text \<open>\<^verbatim>\<open>"model":\s*"([^"]+)"\<close> at the start of \<open>s\<close>.\<close>

definition match_model_json :: "string \<Rightarrow> string option" where
  "match_model_json s =
     (if istarts_with (CHR 0x22 # ''model'' @ [CHR 0x22, CHR '':'']) s
      then quoted_run (\<lambda>c. c \<noteq> CHR 0x22) (dropWhile is_space (drop 8 s))
      else None)"

text \<open>\<^verbatim>\<open>\d+x\d+\<close> at the start of \<open>r\<close>: the matched text.\<close>

definition match_dims :: "string \<Rightarrow> string option" where
  "match_dims r =
     (let w = takeWhile is_digit r; r1 = drop (length w) r
      in case r1 of
           [] \<Rightarrow> None
         | x # r2 \<Rightarrow>
             (let h = takeWhile is_digit r2
              in if w \<noteq> [] \<and> is_x x \<and> h \<noteq> [] then Some (w @ [x] @ h) else None))"

text \<open>\<^verbatim>\<open>Size:\s*(\d+x\d+)\<close> at the start of \<open>s\<close>.\<close>

definition match_size_key :: "string \<Rightarrow> string option" where
  "match_size_key s =
     (if istarts_with ''size:'' s then match_dims (dropWhile is_space (drop 5 s)) else None)"

text \<open>\<^verbatim>\<open>"size":\s*"(\d+x\d+)"\<close> at the start of \<open>s\<close>.\<close>

definition match_size_json :: "string \<Rightarrow> string option" where
  "match_size_json s =
     (if istarts_with (CHR 0x22 # ''size'' @ [CHR 0x22, CHR '':'']) s
      then (case dropWhile is_space (drop 7 s) of
              [] \<Rightarrow> None
            | q # r \<Rightarrow>
                (case match_dims r of
                   None \<Rightarrow> None
                 | Some d \<Rightarrow>
                     if q = CHR 0x22 \<and> starts_with [CHR 0x22] (drop (length d) r)
                     then Some d else None))
      else None)"

text \<open>
  \<^verbatim>\<open>(\d{3,5}x\d{3,5})\<close> at the start of \<open>s\<close>: the first run of digits has to end
  before the \<^verbatim>\<open>x\<close>, the second is cut after five digits.
\<close>

definition match_size_bare :: "string \<Rightarrow> string option" where
  "match_size_bare s =
     (let w = takeWhile is_digit s; r1 = drop (length w) s
      in case r1 of
           [] \<Rightarrow> None
         | x # r2 \<Rightarrow>
             (let h = takeWhile is_digit r2
              in if 3 \<le> length w \<and> length w \<le> 5 \<and> is_x x \<and> 3 \<le> length h
                 then Some (w @ [x] @ take 5 h) else None))"

text \<open>
  The loop over \<^verbatim>\<open>model_patterns\<close>: a pattern whose group is blank after
  \<^verbatim>\<open>strip()\<close> does not end the loop.
\<close>

fun first_model :: "(string \<Rightarrow> string option) list \<Rightarrow> string \<Rightarrow> string option" where
  "first_model [] exif_data = None"
| "first_model (m # ms) exif_data =
     (case re_search m exif_data of
        None \<Rightarrow> first_model ms exif_data
      | Some g \<Rightarrow>
          (let model_name = strip g
           in if model_name \<noteq> [] then Some model_name else first_model ms exif_data))"

text \<open>The loop over \<^verbatim>\<open>size_patterns\<close>: the first pattern that matches.\<close>

fun first_size :: "(string \<Rightarrow> string option) list \<Rightarrow> string \<Rightarrow> string option" where
  "first_size [] exif_data = None"
| "first_size (m # ms) exif_data =
     (case re_search m exif_data of
        None \<Rightarrow> first_size ms exif_data
      | Some g \<Rightarrow> Some g)"

definition model_patterns :: "(string \<Rightarrow> string option) list" where
  "model_patterns = [match_model_key, match_model_key, match_model_json]"

definition size_patterns :: "(string \<Rightarrow> string option) list" where
  "size_patterns = [match_size_key, match_size_key, match_size_json, match_size_bare]"

record metadata_summary =
  models :: "(string \<times> int) list"
  sizes :: "(string \<times> int) list"
  md_error :: "string option"

text \<open>The values counted over the rows: \<open>None\<close> adds nothing to the counter.\<close>

definition found_values :: "(string \<Rightarrow> string option) \<Rightarrow> (string \<times> string) list \<Rightarrow> string list" where
  "found_values f rows =
     concat (map (\<lambda>row. if snd row = [] then []
                         else (case f (snd row) of None \<Rightarrow> [] | Some v \<Rightarrow> [v])) rows)"

definition get_metadata_summary ::
  "env \<Rightarrow> conn \<Rightarrow> string \<Rightarrow> bool \<Rightarrow> int option \<Rightarrow> metadata_summary" where
  "get_metadata_summary e c folder_path0 recursive max_images =
     (case cursor_execute c MetadataRows
             (exif_rows e c (normpath e folder_path0) recursive max_images) of
        Inl ex \<Rightarrow> \<lparr>models = [], sizes = [], md_error = Some (str_error ex)\<rparr>
      | Inr rows \<Rightarrow>
          \<lparr>models = most_common 10 (counter (found_values (first_model model_patterns) rows)),
           sizes = most_common 10 (counter (found_values (first_size size_patterns) rows)),
           md_error = None\<rparr>)"

subsection \<open>The statistics of a folder\<close>

record folder_stats = counts +
  folder_path :: string
  recursive :: bool
  media_stats :: media_stats
  top_tags :: "tag_entry list"
  prompt_analysis :: prompt_analysis
  metadata_summary :: "metadata_summary option"
  analysis_limit :: "int option"

text \<open>
  \<^verbatim>\<open>compute_folder_stats\<close>. The summary is \<open>None\<close> for the empty dictionary of a call
  without metadata.
\<close>

definition compute_folder_stats ::
  "env \<Rightarrow> string \<Rightarrow> bool \<Rightarrow> bool \<Rightarrow> int option \<Rightarrow> error + folder_stats" where
  "compute_folder_stats e folder_path0 rec include_metadata limit =
     (let fp = normpath e folder_path0
      in if \<not> path_exists e fp \<or> \<not> isdir e fp
         then Inl (ValueError (''Invalid folder path: '' @ fp))
         else
           (case get_conn e of
              Inl ex \<Rightarrow> Inl ex
            | Inr c \<Rightarrow>
                (let k = get_file_and_folder_counts e fp rec;
                     ms = get_media_stats e c fp rec limit;
                     tags = get_top_tags e c fp rec 10 limit
                 in case analyze_prompt_words e c fp rec 20 limit of
                      Inl ex \<Rightarrow> Inl ex
                    | Inr pa \<Rightarrow>
                        Inr \<lparr>file_count = file_count k,
                             subfolder_count = subfolder_count k,
                             total_size_bytes = total_size_bytes k,
                             media_file_count = media_file_count k,
                             folder_path = fp,
                             recursive = rec,
                             media_stats = ms,
                             top_tags = tags,
                             prompt_analysis = pa,
                             metadata_summary =
                               (if include_metadata
                                then Some (get_metadata_summary e c fp rec limit)
                                else None),
                             analysis_limit = limit\<rparr>)))"


subsection \<open>The background scheduler\<close>

text \<open>
  The cache store, \<^verbatim>\<open>FolderStats\<close> of \<^verbatim>\<open>scripts/iib/db/datamodel.py\<close>: the two calls the
  scheduler makes, each of which can raise.
\<close>

record cache_store =
  is_cache_expired :: "conn \<Rightarrow> string \<Rightarrow> error + bool"
  cache_stats :: "conn \<Rightarrow> string \<Rightarrow> folder_stats \<Rightarrow> error + unit"

text \<open>The arguments \<^verbatim>\<open>_executor.submit\<close> hands to \<^verbatim>\<open>_compute_stats_task\<close>.\<close>

record task =
  task_path :: string
  task_recursive :: bool
  task_limit :: "int option"

text \<open>
  The module's globals: \<open>executor\<close> is \<open>None\<close> or the pool with its number of workers.
  \<open>dispatched\<close> holds the tasks handed to a pool and not yet finished; a pool that
  was shut down without waiting still runs them.
\<close>

record scheduler =
  executor :: "int option"
  pending_jobs :: "string set"
  initialized :: bool
  dispatched :: "task list"

definition initial_scheduler :: scheduler where
  "initial_scheduler = \<lparr>executor = None, pending_jobs = {}, initialized = False, dispatched = []\<rparr>"

text \<open>\<^verbatim>\<open>ThreadPoolExecutor(max_workers=n)\<close> raises unless \<open>n\<close> is positive.\<close>

definition init_background_worker :: "int \<Rightarrow> scheduler \<Rightarrow> error + scheduler" where
  "init_background_worker max_workers s =
     (if \<not> initialized s
      then (if max_workers \<le> 0 then Inl (ValueError ''max_workers must be greater than 0'')
            else Inr (s\<lparr>executor := Some max_workers, initialized := True\<rparr>))
      else Inr s)"

definition shutdown_background_worker :: "scheduler \<Rightarrow> scheduler" where
  "shutdown_background_worker s =
     (case executor s of
        Some pool \<Rightarrow> s\<lparr>executor := None, initialized := False\<rparr>
      | None \<Rightarrow> s)"

definition is_job_pending :: "env \<Rightarrow> scheduler \<Rightarrow> string \<Rightarrow> bool" where
  "is_job_pending e s fp = (normpath e fp \<in> pending_jobs s)"



text \<open>The cache check of a submission: does a fresh cache entry stand in its way?\<close>

definition cache_is_valid :: "env \<Rightarrow> cache_store \<Rightarrow> string \<Rightarrow> error + bool" where
  "cache_is_valid e st fp =
     (case get_conn e of
        Inl ex \<Rightarrow> Inl ex
      | Inr c \<Rightarrow>
          (case is_cache_expired st c fp of
             Inl ex \<Rightarrow> Inl ex
           | Inr expired \<Rightarrow> Inr (\<not> expired)))"

text \<open>
  \<^verbatim>\<open>submit_folder_for_processing\<close>: the value returned or the exception raised, and the
  globals afterwards. A pool that is \<open>None\<close> has no \<^verbatim>\<open>submit\<close>.
\<close>

definition enqueue :: "string \<Rightarrow> bool \<Rightarrow> int option \<Rightarrow> scheduler \<Rightarrow> (error + bool) \<times> scheduler" where
  "enqueue fp rec limit s =
     (if fp \<in> pending_jobs s then (Inr False, s)
      else
        (let s1 = s\<lparr>pending_jobs := insert fp (pending_jobs s)\<rparr>
         in case executor s1 of
              None \<Rightarrow> (Inl (AttributeError ''submit''), s1)
            | Some pool \<Rightarrow>
                (Inr True,
                 s1\<lparr>dispatched := dispatched s1 @
                      [\<lparr>task_path = fp, task_recursive = rec, task_limit = limit\<rparr>]\<rparr>)))"

definition submit_folder_for_processing ::
  "env \<Rightarrow> cache_store \<Rightarrow> string \<Rightarrow> bool \<Rightarrow> int option \<Rightarrow> bool \<Rightarrow> scheduler
     \<Rightarrow> (error + bool) \<times> scheduler" where
  "submit_folder_for_processing e st folder_path0 rec limit force s =
     (case (if \<not> initialized s then init_background_worker 4 s else Inr s) of
        Inl ex \<Rightarrow> (Inl ex, s)
      | Inr s1 \<Rightarrow>
          (let fp = normpath e folder_path0
           in if is_job_pending e s1 fp then (Inr False, s1)
              else if \<not> force
              then (case cache_is_valid e st fp of
                      Inl ex \<Rightarrow> (Inl ex, s1)
                    | Inr valid \<Rightarrow>
                        if valid then (Inr False, s1) else enqueue fp rec limit s1)
              else enqueue fp rec limit s1))"

text \<open>\<^verbatim>\<open>batch_submit_folders\<close>: the number of jobs accepted.\<close>

fun submit_all ::
  "env \<Rightarrow> cache_store \<Rightarrow> string list \<Rightarrow> bool \<Rightarrow> int option \<Rightarrow> bool \<Rightarrow> int \<Rightarrow> scheduler
     \<Rightarrow> (error + int) \<times> scheduler" where
  "submit_all e st [] rec limit force submitted s = (Inr submitted, s)"
| "submit_all e st (p # ps) rec limit force submitted s =
     (case submit_folder_for_processing e st p rec limit force s of
        (Inl ex, s1) \<Rightarrow> (Inl ex, s1)
      | (Inr accepted, s1) \<Rightarrow>
          submit_all e st ps rec limit force (if accepted then submitted + 1 else submitted) s1)"

definition batch_submit_folders ::
  "env \<Rightarrow> cache_store \<Rightarrow> string list \<Rightarrow> bool \<Rightarrow> int option \<Rightarrow> bool \<Rightarrow> scheduler
     \<Rightarrow> (error + int) \<times> scheduler" where
  "batch_submit_folders e st folder_paths rec limit force s =
     (case (if \<not> initialized s then init_background_worker 4 s else Inr s) of
        Inl ex \<Rightarrow> (Inl ex, s)
      | Inr s1 \<Rightarrow> submit_all e st folder_paths rec limit force 0 s1)"





subsection \<open>A POSIX system\<close>

text \<open>
  \<^verbatim>\<open>str.split(sep)\<close> and \<^verbatim>\<open>sep.join(parts)\<close>, and \<^verbatim>\<open>os.path.normpath\<close> and
  \<^verbatim>\<open>os.path.relpath\<close> as \<^verbatim>\<open>posixpath\<close> defines them (the latter on absolute paths).
  They give the concrete systems below something to run on.
\<close>

fun split_on :: "char \<Rightarrow> string \<Rightarrow> string list" where
  "split_on c [] = [[]]"
| "split_on c (x # xs) =
     (if x = c then [] # split_on c xs
      else (case split_on c xs of [] \<Rightarrow> [[x]] | y # ys \<Rightarrow> (x # y) # ys))"

fun join_with :: "char \<Rightarrow> string list \<Rightarrow> string" where
  "join_with c [] = []"
| "join_with c [x] = x"
| "join_with c (x # y # ys) = x @ c # join_with c (y # ys)"

definition initial_slashes :: "string \<Rightarrow> nat" where
  "initial_slashes p =
     (if starts_with ''/'' p
      then (if starts_with ''//'' p \<and> \<not> starts_with ''///'' p then 2 else 1)
      else 0)"

text \<open>The body of \<^verbatim>\<open>for comp in comps\<close>, \<open>part\<close> being the component.\<close>

definition norm_step :: "nat \<Rightarrow> string list \<Rightarrow> string \<Rightarrow> string list" where
  "norm_step k new_comps part =
     (if part = [] \<or> part = ''.'' then new_comps
      else if part \<noteq> ''..'' \<or> (k = 0 \<and> new_comps = [])
              \<or> (new_comps \<noteq> [] \<and> last new_comps = ''..'')
      then new_comps @ [part]
      else if new_comps \<noteq> [] then butlast new_comps
      else new_comps)"

definition posix_normpath :: "string \<Rightarrow> string" where
  "posix_normpath p =
     (if p = [] then ''.''
      else
        (let k = initial_slashes p;
             new_comps = foldl (norm_step k) [] (split_on CHR ''/'' p);
             q = replicate k CHR ''/'' @ join_with CHR ''/'' new_comps
         in if q = [] then ''.'' else q))"


fun common_prefix_length :: "'a list \<Rightarrow> 'a list \<Rightarrow> nat" where
  "common_prefix_length (x # xs) (y # ys) = (if x = y then Suc (common_prefix_length xs ys) else 0)"
| "common_prefix_length xs ys = 0"

definition posix_relpath :: "string \<Rightarrow> string \<Rightarrow> string" where
  "posix_relpath p start =
     (let start_list = filter (\<lambda>x. x \<noteq> []) (split_on CHR ''/'' (posix_normpath start));
          path_list = filter (\<lambda>x. x \<noteq> []) (split_on CHR ''/'' (posix_normpath p));
          i = common_prefix_length start_list path_list;
          rel_list = replicate (length start_list - i) ''..'' @ drop i path_list
      in if rel_list = [] then ''.'' else join_with CHR ''/'' rel_list)"

text \<open>
  A system with one directory \<^verbatim>\<open>/pics\<close> that holds no files, on which no call fails,
  and a catalog connection \<open>c\<close>.
\<close>

definition posix_env :: "conn \<Rightarrow> env" where
  "posix_env c =
     \<lparr>sep = CHR ''/'',
      normpath = posix_normpath,
      relpath = posix_relpath,
      path_exists = (\<lambda>p. p = ''/pics''),
      isdir = (\<lambda>p. p = ''/pics''),
      path_join = (\<lambda>a b. a @ ''/'' @ b),
      walk = (\<lambda>p. [(p, [], [])]),
      getsize = (\<lambda>p. None),
      scandir = (\<lambda>p. Inr []),
      is_media_file = (\<lambda>p. False),
      get_video_type = (\<lambda>p. None),
      get_conn = Inr c\<rparr>"

text \<open>
  An engine that sorts stably, and one that puts rows of equal count in the
  reverse of their incoming order.
\<close>

definition stable_engine :: "conn \<Rightarrow> conn" where
  "stable_engine c =
     c\<lparr>order_by_date_desc := sort_key (\<lambda>r. - img_date r),
       order_by_count_desc := sort_key (\<lambda>row. - row_count row)\<rparr>"

definition reversing_engine :: "conn \<Rightarrow> conn" where
  "reversing_engine c =
     c\<lparr>order_by_date_desc := sort_key (\<lambda>r. - img_date r),
       order_by_count_desc := (\<lambda>rows. rev (sort_key row_count rows))\<rparr>"

definition empty_catalog :: conn where
  "empty_catalog =
     \<lparr>image_table = [], tag_table = Map.empty, image_tag_table = [],
      global_setting = Map.empty, faults = Map.empty,
      order_by_date_desc = sort_key (\<lambda>r. - img_date r),
      order_by_count_desc = sort_key (\<lambda>row. - row_count row)\<rparr>"

definition always_expired :: cache_store where
  "always_expired = \<lparr>is_cache_expired = (\<lambda>c p. Inr True), cache_stats = (\<lambda>c p stats. Inr ())\<rparr>"

definition never_expired :: cache_store where
  "never_expired = \<lparr>is_cache_expired = (\<lambda>c p. Inr False), cache_stats = (\<lambda>c p stats. Inr ())\<rparr>"

text \<open>The globals after \<^verbatim>\<open>init_background_worker(4)\<close> on a fresh module.\<close>

definition running :: scheduler where
  "running = \<lparr>executor = Some 4, pending_jobs = {}, initialized = True, dispatched = []\<rparr>"


definition pics_task :: task where
  "pics_task = \<lparr>task_path = ''/pics'', task_recursive = True, task_limit = Some 500\<rparr>"


subsection \<open>Sample catalogs\<close>

text \<open>
  One image \<^verbatim>\<open>/pics/a.png\<close> that carries the custom tags \<open>1, \<dots>, n\<close>, each once.
\<close>

definition tagged_catalog :: "int \<Rightarrow> conn" where
  "tagged_catalog n =
     empty_catalog
       \<lparr>image_table := [\<lparr>img_id = 1, img_path = ''/pics/a.png'', img_date = 1, img_exif = None\<rparr>],
        tag_table := (\<lambda>i. if 1 \<le> i \<and> i \<le> n
                            then Some \<lparr>t_name = ''tag'', t_type = ''custom''\<rparr> else None),
        image_tag_table := map (\<lambda>i. (1, i)) [1..n]\<rparr>"

text \<open>
  Two images under \<^verbatim>\<open>/pics\<close>, one of them in a subfolder, and one elsewhere; two custom
  tags and one tag of another type.
\<close>

definition sample_catalog :: conn where
  "sample_catalog =
     empty_catalog
       \<lparr>image_table :=
          [\<lparr>img_id = 1, img_path = ''/pics/a.png'', img_date = 3,
            img_exif = Some ''masterpiece, 1girl\<newline>Negative prompt: bad hands\<newline>Steps: 20, Size: 512x768, Model: sd15''\<rparr>,
           \<lparr>img_id = 2, img_path = ''/pics/sub/b.mp4'', img_date = 2,
            img_exif = Some ''a cat, masterpiece\<newline>Steps: 30, Size: 512x512''\<rparr>,
           \<lparr>img_id = 3, img_path = ''/other/c.png'', img_date = 1, img_exif = None\<rparr>],
        tag_table :=
          [1 \<mapsto> \<lparr>t_name = ''cat'', t_type = ''custom''\<rparr>,
           2 \<mapsto> \<lparr>t_name = ''dog'', t_type = ''custom''\<rparr>,
           3 \<mapsto> \<lparr>t_name = ''512x768'', t_type = ''size''\<rparr>],
        image_tag_table := [(1, 2), (1, 1), (2, 1), (1, 3)]\<rparr>"

text \<open>
  The catalog of one image with one tag on a connection whose four row queries of
  the sub-steps raise.
\<close>

definition locked_catalog :: conn where
  "locked_catalog =
     tagged_catalog 1
       \<lparr>faults := [MediaImages \<mapsto> ''database is locked'', TagsImages \<mapsto> ''database is locked'',
                   PromptRows \<mapsto> ''database is locked'', MetadataRows \<mapsto> ''database is locked'']\<rparr>"

text \<open>A system on which \<^verbatim>\<open>.mp4\<close> files are videos.\<close>

definition video_env :: "conn \<Rightarrow> env" where
  "video_env c =
     (posix_env c)\<lparr>get_video_type :=
        (\<lambda>p. if drop (length p - 4) p = ''.mp4'' then Some ''mp4'' else None)\<rparr>"

text \<open>The same catalog on a connection whose tag-count query raises.\<close>

definition tags_locked_catalog :: conn where
  "tags_locked_catalog = tagged_catalog 1\<lparr>faults := [TagsCounts \<mapsto> ''database is locked'']\<rparr>"

text \<open>The same catalog on a connection whose read of a setting raises.\<close>

definition settings_locked_catalog :: conn where
  "settings_locked_catalog = tagged_catalog 1\<lparr>faults := [GetSetting \<mapsto> ''database is locked'']\<rparr>"


subsection \<open>Notions the properties are stated with\<close>

text \<open>
  The percentage as the spec gives it: \<^verbatim>\<open>round(count/total*100, 2)\<close>, and \<open>0\<close> when the
  total is zero (or below).
\<close>

definition spec_percentage :: "int \<Rightarrow> int \<Rightarrow> rat" where
  "spec_percentage n total_n =
     (if total_n > 0 then round2 (rat_of_int n / rat_of_int total_n * 100) else 0)"

text \<open>
  The custom-tag applications on the media \<^verbatim>\<open>get_top_tags\<close> analyses, one per link, and
  the words found in the prompts \<^verbatim>\<open>analyze_prompt_words\<close> analyses.
\<close>

definition tag_applications ::
  "env \<Rightarrow> conn \<Rightarrow> string \<Rightarrow> bool \<Rightarrow> int option \<Rightarrow> (int \<times> int \<times> tag_row) list" where
  "tag_applications e c p rec max_images =
     custom_links c (map fst (analyzed_rows e c (normpath e p) rec max_images))"


text \<open>
  The rows of the tag query that reach the caller of \<^verbatim>\<open>get_top_tags\<close>: none when a
  query raises or no image is analysed. \<open>entries_of\<close> gives the dictionaries built
  from them.
\<close>

definition top_tag_rows ::
  "env \<Rightarrow> conn \<Rightarrow> string \<Rightarrow> bool \<Rightarrow> int \<Rightarrow> int option \<Rightarrow> tag_count_row list" where
  "top_tag_rows e c p rec limit max_images =
     (let image_ids = map fst (analyzed_rows e c (normpath e p) rec max_images)
      in if faults c TagsImages = None \<and> faults c TagsCounts = None \<and> image_ids \<noteq> []
         then select_tag_counts c image_ids limit else [])"

definition entries_of :: "tag_count_row list \<Rightarrow> tag_entry list" where
  "entries_of rows =
     map (\<lambda>row. \<lparr>tag_id = fst row, tag_name = fst (snd row), tag_type = fst (snd (snd row)),
                  tag_count = row_count row,
                  tag_percentage = spec_percentage (row_count row) (sum_list (map row_count rows))\<rparr>)
       rows"


section \<open>Properties of the text analyser\<close>
















section \<open>The POSIX path functions\<close>

















section \<open>Properties of the background scheduler\<close>


lemma lazy_init:
  "(if \<not> initialized s then init_background_worker 4 s else Inr s) =
     Inr (if initialized s then s else s\<lparr>executor := Some 4, initialized := True\<rparr>)"
  by (simp add: init_background_worker_def)




lemma enqueue_accepts:
  "executor s \<noteq> None \<Longrightarrow>
   (fst (enqueue fp rec limit s) = Inr True) = (fp \<notin> pending_jobs s)"
  by (auto simp: enqueue_def Let_def split: option.splits)

lemma enqueue_dispatched:
  "fst (enqueue fp rec limit s) = Inr True \<Longrightarrow>
   dispatched (snd (enqueue fp rec limit s)) =
     dispatched s @ [\<lparr>task_path = fp, task_recursive = rec, task_limit = limit\<rparr>]"
  by (auto simp: enqueue_def Let_def split: option.splits if_splits)

lemma submit_unfold:
  "submit_folder_for_processing e st p rec limit force s =
     (let s1 = (if initialized s then s else s\<lparr>executor := Some 4, initialized := True\<rparr>);
          fp = normpath e p
      in if normpath e fp \<in> pending_jobs s1 then (Inr False, s1)
         else if \<not> force
         then (case cache_is_valid e st fp of
                 Inl ex \<Rightarrow> (Inl ex, s1)
               | Inr valid \<Rightarrow> if valid then (Inr False, s1) else enqueue fp rec limit s1)
         else enqueue fp rec limit s1)"
  unfolding submit_folder_for_processing_def lazy_init is_job_pending_def by (simp add: Let_def)







text \<open>
  Claim C9 does not hold: after \<^verbatim>\<open>init_background_worker(4)\<close> and
  \<^verbatim>\<open>shutdown_background_worker()\<close> a submission of \<^verbatim>\<open>/pics\<close> with an expired cache
  entry returns \<^verbatim>\<open>True\<close> and dispatches the task.
\<close>

theorem submit_after_shutdown_counterexample:
  "init_background_worker 4 initial_scheduler = Inr running
   \<and> fst (submit_folder_for_processing (posix_env empty_catalog) always_expired
            ''/pics'' True (Some 500) False (shutdown_background_worker running)) = Inr True
   \<and> dispatched (snd (submit_folder_for_processing (posix_env empty_catalog) always_expired
            ''/pics'' True (Some 500) False (shutdown_background_worker running))) = [pics_task]"
  by code_simp

text \<open>
  Claim C9, amended. In a state whose flag tells whether a pool exists,
  \<^verbatim>\<open>shutdown_background_worker\<close> clears the pool and the flag and leaves the pending
  set and the dispatched tasks alone. The next submission returns \<^verbatim>\<open>True\<close> exactly
  when the path is not pending and either \<open>force\<close> is set or the cache entry is
  expired; it then has created a new pool of four workers and dispatched the task.
\<close>

theorem submit_after_shutdown:
  assumes "initialized s \<longleftrightarrow> executor s \<noteq> None"
  shows "executor (shutdown_background_worker s) = None
       \<and> \<not> initialized (shutdown_background_worker s)
       \<and> pending_jobs (shutdown_background_worker s) = pending_jobs s
       \<and> dispatched (shutdown_background_worker s) = dispatched s
       \<and> (fst (submit_folder_for_processing e st p rec limit force (shutdown_background_worker s)) = Inr True
            \<longleftrightarrow> normpath e (normpath e p) \<notin> pending_jobs s \<and> normpath e p \<notin> pending_jobs s
                \<and> (force \<or> cache_is_valid e st (normpath e p) = Inr False))
       \<and> (fst (submit_folder_for_processing e st p rec limit force (shutdown_background_worker s)) = Inr True
            \<longrightarrow> executor (snd (submit_folder_for_processing e st p rec limit force
                      (shutdown_background_worker s))) = Some 4
                \<and> initialized (snd (submit_folder_for_processing e st p rec limit force
                      (shutdown_background_worker s)))
                \<and> dispatched (snd (submit_folder_for_processing e st p rec limit force
                      (shutdown_background_worker s)))
                    = dispatched s @ [\<lparr>task_path = normpath e p, task_recursive = rec, task_limit = limit\<rparr>])"
proof -
  let ?d = "shutdown_background_worker s"
  let ?s1 = "?d\<lparr>executor := Some 4, initialized := True\<rparr>"
  let ?r = "submit_folder_for_processing e st p rec limit force ?d"
  have d: "executor ?d = None" "\<not> initialized ?d" "pending_jobs ?d = pending_jobs s"
    "dispatched ?d = dispatched s"
    using assms by (auto simp: shutdown_background_worker_def split: option.splits)
  have ex: "executor ?s1 \<noteq> None" by simp
  have p1: "pending_jobs ?s1 = pending_jobs s" "dispatched ?s1 = dispatched s"
    by (simp_all add: d)
  have r: "?r = (if normpath e (normpath e p) \<in> pending_jobs s then (Inr False, ?s1)
         else if \<not> force
         then (case cache_is_valid e st (normpath e p) of
                 Inl ex \<Rightarrow> (Inl ex, ?s1)
               | Inr valid \<Rightarrow> if valid then (Inr False, ?s1) else enqueue (normpath e p) rec limit ?s1)
         else enqueue (normpath e p) rec limit ?s1)"
    unfolding submit_unfold Let_def using d by simp
  have acc: "(fst (enqueue (normpath e p) rec limit ?s1) = Inr True) = (normpath e p \<notin> pending_jobs s)"
    using enqueue_accepts[OF ex, of "normpath e p" rec limit] by (simp add: d)
  have iff: "fst ?r = Inr True
            \<longleftrightarrow> normpath e (normpath e p) \<notin> pending_jobs s \<and> normpath e p \<notin> pending_jobs s
                \<and> (force \<or> cache_is_valid e st (normpath e p) = Inr False)"
    unfolding r using acc by (auto split: sum.splits)
  have st: "executor (snd (enqueue (normpath e p) rec limit ?s1)) = Some 4
      \<and> initialized (snd (enqueue (normpath e p) rec limit ?s1))"
    by (simp add: enqueue_def Let_def)
  have dis: "fst (enqueue (normpath e p) rec limit ?s1) = Inr True \<longrightarrow>
      dispatched (snd (enqueue (normpath e p) rec limit ?s1)) =
        dispatched s @ [\<lparr>task_path = normpath e p, task_recursive = rec, task_limit = limit\<rparr>]"
    using enqueue_dispatched[of "normpath e p" rec limit ?s1] by (simp add: d)
  have after: "fst ?r = Inr True \<longrightarrow> executor (snd ?r) = Some 4 \<and> initialized (snd ?r)
        \<and> dispatched (snd ?r) =
            dispatched s @ [\<lparr>task_path = normpath e p, task_recursive = rec, task_limit = limit\<rparr>]"
    unfolding r using st dis by (auto split: sum.splits)
  from d iff after show ?thesis by blast
qed

theorem submit_after_shutdown_witness:
  "(initialized running \<longleftrightarrow> executor running \<noteq> None)
   \<and> executor (shutdown_background_worker running) = None
   \<and> fst (submit_folder_for_processing (posix_env empty_catalog) never_expired
            ''/pics'' True (Some 500) True (shutdown_background_worker running)) = Inr True
   \<and> executor (snd (submit_folder_for_processing (posix_env empty_catalog) never_expired
            ''/pics'' True (Some 500) True (shutdown_background_worker running))) = Some 4
   \<and> fst (submit_folder_for_processing (posix_env empty_catalog) never_expired
            ''/pics'' True (Some 500) False (shutdown_background_worker running)) = Inr False"
proof -
  let ?e = "posix_env empty_catalog"
  let ?d = "shutdown_background_worker running"
  have h: "initialized running \<longleftrightarrow> executor running \<noteq> None" by (simp add: running_def)
  note T = submit_after_shutdown[OF h, of ?e never_expired "''/pics''" True "Some 500" True]
  note U = submit_after_shutdown[OF h, of ?e never_expired "''/pics''" True "Some 500" False]
  have n: "normpath ?e (normpath ?e ''/pics'') \<notin> pending_jobs running"
    "normpath ?e ''/pics'' \<notin> pending_jobs running" by (simp_all add: running_def)
  have c: "cache_is_valid ?e never_expired (normpath ?e ''/pics'') = Inr True" by code_simp
  from T have t1: "executor ?d = None" by (rule conjunct1)
  from T n have t2: "fst (submit_folder_for_processing ?e never_expired ''/pics'' True (Some 500) True ?d) = Inr True"
    by blast
  with T have t3: "executor (snd (submit_folder_for_processing ?e never_expired ''/pics'' True (Some 500) True ?d)) = Some 4"
    by blast
  from U c have "fst (submit_folder_for_processing ?e never_expired ''/pics'' True (Some 500) False ?d) \<noteq> Inr True"
    by simp
  moreover have "fst (submit_folder_for_processing ?e never_expired ''/pics'' True (Some 500) False ?d) = Inr False
     \<or> fst (submit_folder_for_processing ?e never_expired ''/pics'' True (Some 500) False ?d) = Inr True"
    by code_simp
  ultimately have t4: "fst (submit_folder_for_processing ?e never_expired ''/pics'' True (Some 500) False ?d) = Inr False"
    by blast
  from h t1 t2 t3 t4 show ?thesis by (intro conjI)
qed

section \<open>Positive prompt and stopwords\<close>

lemma before_first_split:
  "contains mk s \<Longrightarrow> \<exists>rest. s = before_first mk s @ mk @ rest"
proof (induction s)
  case Nil
  then show ?case by simp
next
  case (Cons c cs)
  show ?case
  proof (cases "starts_with mk (c # cs)")
    case True
    then have "c # cs = mk @ drop (length mk) (c # cs)"
      unfolding starts_with_def by (metis append_take_drop_id)
    with True show ?thesis by auto
  next
    case False
    with Cons.prems have "contains mk cs" by simp
    from Cons.IH[OF this] obtain rest where "cs = before_first mk cs @ mk @ rest" by blast
    with False show ?thesis by auto
  qed
qed

lemma before_first_absent: "\<not> contains mk s \<Longrightarrow> before_first mk s = s"
  by (induction s) auto

text \<open>
  Claim C6 on two blobs. The blob of the spec's example is cut before its
  \<^verbatim>\<open>Negative prompt:\<close> line. A blob whose first line begins with \<^verbatim>\<open>Negative prompt:\<close>
  is not cut there: the marker is looked for behind a newline only, the cut falls
  before the \<^verbatim>\<open>Steps:\<close> line, and the words of the negative prompt are extracted as
  words of the positive prompt. A blob whose only line begins with \<^verbatim>\<open>Steps:\<close> is
  returned whole.
\<close>

theorem positive_prompt_first_line_marker:
  "positive_prompt ''masterpiece, 1girl\<newline>Negative prompt: bad hands\<newline>Steps: 20'' = ''masterpiece, 1girl''
   \<and> positive_prompt ''Negative prompt: bad hands\<newline>Steps: 20'' = ''Negative prompt: bad hands''
   \<and> extract_words_from_text (Some (positive_prompt ''Negative prompt: bad hands\<newline>Steps: 20''))
        (set DEFAULT_STOPWORDS) 2 = [''negative'', ''prompt'', ''bad'', ''hands'']
   \<and> positive_prompt ''Steps: 20, Sampler: Euler'' = ''Steps: 20, Sampler: Euler''"
  by code_simp





section \<open>The analysis limit\<close>









section \<open>Properties of the histograms\<close>

lemma percentage_of_spec: "percentage_of n t = Inr (spec_percentage n t)"
  by (simp add: percentage_of_def spec_percentage_def truediv_def)

lemma map_result_total: "(\<And>x. x \<in> set xs \<Longrightarrow> f x = Inr (g x)) \<Longrightarrow> map_result f xs = Inr (map g xs)"
  by (induction xs) simp_all

lemma tag_entry_of_total:
  "tag_entry_of t row =
     Inr \<lparr>tag_id = fst row, tag_name = fst (snd row), tag_type = fst (snd (snd row)),
          tag_count = row_count row, tag_percentage = spec_percentage (row_count row) t\<rparr>"
  by (cases row) (simp add: tag_entry_of_def percentage_of_spec row_count_def)


lemma get_top_tags_entries:
  "get_top_tags e c p rec k m = entries_of (top_tag_rows e c p rec k m)"
proof -
  let ?ids = "map fst (analyzed_rows e c (normpath e p) rec m)"
  have mr: "map_result (tag_entry_of t) rows =
      Inr (map (\<lambda>row. \<lparr>tag_id = fst row, tag_name = fst (snd row), tag_type = fst (snd (snd row)),
                  tag_count = row_count row, tag_percentage = spec_percentage (row_count row) t\<rparr>) rows)"
    for t rows by (rule map_result_total) (rule tag_entry_of_total)
  show ?thesis
  proof (cases "faults c TagsImages")
    case (Some msg)
    then show ?thesis
      by (simp add: get_top_tags_def top_tags_body_def cursor_execute_def top_tag_rows_def entries_of_def)
  next
    case None
    show ?thesis
    proof (cases "?ids = []")
      case True
      with None show ?thesis
        by (simp add: get_top_tags_def top_tags_body_def cursor_execute_def top_tag_rows_def
              entries_of_def)
    next
      case False
      show ?thesis
      proof (cases "faults c TagsCounts")
        case (Some msg)
        with None False show ?thesis
          by (simp add: get_top_tags_def top_tags_body_def cursor_execute_def top_tag_rows_def
                entries_of_def)
      next
        case n2: None
        with None False show ?thesis
          by (simp add: get_top_tags_def top_tags_body_def cursor_execute_def top_tag_rows_def
                entries_of_def mr Let_def del: map_result.simps)
      qed
    qed
  qed
qed





lemma entries_of_counts: "map tag_count (entries_of rows) = map row_count rows"
  by (simp add: entries_of_def comp_def)















section \<open>Properties of the tag histogram\<close>

lemma add_to_group_ids:
  "fst ` set (add_to_group x groups) = insert (fst x) (fst ` set groups)"
  by (induction x groups rule: add_to_group.induct) auto

lemma add_to_group_distinct:
  "distinct (map fst groups) \<Longrightarrow> distinct (map fst (add_to_group x groups))"
proof (induction x groups rule: add_to_group.induct)
  case (1 tid t)
  then show ?case by simp
next
  case (2 tid t i n ty k groups)
  then show ?case using add_to_group_ids[of "(tid, t)" groups] by (auto simp: image_iff)
qed

lemma add_to_group_count:
  "sum_list (map row_count (filter (\<lambda>r. fst r = i) (add_to_group x groups)))
     = sum_list (map row_count (filter (\<lambda>r. fst r = i) groups)) + (if i = fst x then 1 else 0)"
  by (induction x groups rule: add_to_group.induct) (auto simp: row_count_def)

lemma add_to_group_sum:
  "sum_list (map row_count (add_to_group x groups)) = sum_list (map row_count groups) + 1"
  by (induction x groups rule: add_to_group.induct) (auto simp: row_count_def)

lemma group_by_tag_snoc:
  "group_by_tag (links @ [l]) = add_to_group (snd l) (group_by_tag links)"
  by (simp add: group_by_tag_def)

lemma group_by_tag_ids: "fst ` set (group_by_tag links) = (\<lambda>l. fst (snd l)) ` set links"
proof (induction links rule: rev_induct)
  case Nil
  then show ?case by (simp add: group_by_tag_def)
next
  case (snoc l links)
  then show ?case unfolding group_by_tag_snoc add_to_group_ids by auto
qed

lemma group_by_tag_distinct: "distinct (map fst (group_by_tag links))"
proof (induction links rule: rev_induct)
  case Nil
  then show ?case by (simp add: group_by_tag_def)
next
  case (snoc l links)
  then show ?case unfolding group_by_tag_snoc by (rule add_to_group_distinct)
qed

lemma group_by_tag_count:
  "sum_list (map row_count (filter (\<lambda>r. fst r = i) (group_by_tag links)))
     = int (length (filter (\<lambda>l. fst (snd l) = i) links))"
proof (induction links rule: rev_induct)
  case Nil
  then show ?case by (simp add: group_by_tag_def)
next
  case (snoc l links)
  then show ?case unfolding group_by_tag_snoc add_to_group_count by auto
qed

lemma group_by_tag_sum: "sum_list (map row_count (group_by_tag links)) = int (length links)"
proof (induction links rule: rev_induct)
  case Nil
  then show ?case by (simp add: group_by_tag_def)
next
  case (snoc l links)
  then show ?case unfolding group_by_tag_snoc add_to_group_sum by simp
qed

lemma distinct_filter_single:
  "distinct (map f xs) \<Longrightarrow> x \<in> set xs \<Longrightarrow> filter (\<lambda>r. f r = f x) xs = [x]"
proof (induction xs)
  case Nil
  then show ?case by simp
next
  case (Cons a xs)
  show ?case
  proof (cases "a = x")
    case True
    with Cons.prems have "filter (\<lambda>r. f r = f x) xs = []"
      by (auto simp: filter_empty_conv image_iff)
    with True show ?thesis by simp
  next
    case False
    with Cons.prems have xin: "x \<in> set xs" by simp
    with Cons.prems have "f a \<noteq> f x" by (auto simp: image_iff)
    with Cons.IH xin Cons.prems show ?thesis by simp
  qed
qed

lemma group_row_count:
  assumes "row \<in> set (group_by_tag links)"
  shows "row_count row = int (length (filter (\<lambda>l. fst (snd l) = fst row) links))"
proof -
  from distinct_filter_single[OF group_by_tag_distinct assms]
  have "filter (\<lambda>r. fst r = fst row) (group_by_tag links) = [row]" .
  with group_by_tag_count[of "fst row" links] show ?thesis by simp
qed

lemma length_filter_ids:
  "distinct is \<Longrightarrow>
   (\<Sum>i\<leftarrow>is. int (length (filter (\<lambda>l. g l = i) links))) = int (length (filter (\<lambda>l. g l \<in> set is) links))"
proof (induction "is")
  case Nil
  then show ?case by simp
next
  case (Cons i "is")
  have "length (filter (\<lambda>l. g l = i \<or> g l \<in> set is) links)
      = length (filter (\<lambda>l. g l = i) links) + length (filter (\<lambda>l. g l \<in> set is) links)"
    using Cons.prems by (induction links) auto
  with Cons show ?case by simp
qed

lemma rows_sum:
  assumes "set rows \<subseteq> set (group_by_tag links)" "distinct (map fst rows)"
  shows "sum_list (map row_count rows)
     = int (length (filter (\<lambda>l. fst (snd l) \<in> fst ` set rows) links))"
proof -
  have "map row_count rows = map (\<lambda>i. int (length (filter (\<lambda>l. fst (snd l) = i) links))) (map fst rows)"
    using assms(1) group_row_count by (auto simp: subset_iff)
  then have "sum_list (map row_count rows)
      = (\<Sum>i\<leftarrow>map fst rows. int (length (filter (\<lambda>l. fst (snd l) = i) links)))"
    by (rule arg_cong)
  also have "\<dots> = int (length (filter (\<lambda>l. fst (snd l) \<in> set (map fst rows)) links))"
    by (rule length_filter_ids[OF assms(2)])
  finally show ?thesis by simp
qed

lemma sort_key_neg_sorted:
  "sorted_wrt (\<lambda>a b. f a \<ge> (f b :: int)) (sort_key (\<lambda>x. - f x) xs)"
proof -
  have "sorted (map (\<lambda>x. - f x) (sort_key (\<lambda>x. - f x) xs))" by (rule sorted_sort_key)
  then show ?thesis by (simp add: sorted_map)
qed

lemma count_order_ok_stable: "count_order_ok (sort_key (\<lambda>row. - row_count row))"
  unfolding count_order_ok_def using sort_key_neg_sorted[of row_count] by simp

lemma count_order_ok_reversing: "count_order_ok (\<lambda>rows. rev (sort_key row_count rows))"
proof -
  have "sorted_wrt (\<lambda>a b. row_count b \<le> row_count a) (rev (sort_key row_count rows))" for rows
  proof -
    have "sorted (map row_count (sort_key row_count rows))" by (rule sorted_sort_key)
    then have "sorted_wrt (\<lambda>a b. row_count a \<le> row_count b) (sort_key row_count rows)"
      by (simp add: sorted_map)
    then show ?thesis by (simp add: sorted_wrt_rev)
  qed
  then show ?thesis unfolding count_order_ok_def by simp
qed

lemma date_order_ok_stable: "date_order_ok (sort_key (\<lambda>r. - img_date r))"
  unfolding date_order_ok_def by (simp add: sort_key_neg_sorted)

lemma engine_ok_stable: "engine_ok (stable_engine c)"
  by (simp add: engine_ok_def stable_engine_def count_order_ok_stable date_order_ok_stable)

lemma engine_ok_reversing: "engine_ok (reversing_engine c)"
  by (simp add: engine_ok_def reversing_engine_def count_order_ok_reversing date_order_ok_stable)

lemma engine_ok_empty: "engine_ok empty_catalog"
  by (simp add: engine_ok_def empty_catalog_def count_order_ok_stable date_order_ok_stable)

lemma sql_limit_sorted: "sorted_wrt P xs \<Longrightarrow> sorted_wrt P (sql_limit n xs)"
  by (simp add: sql_limit_def sorted_wrt_take)

lemma sql_limit_set: "set (sql_limit n xs) \<subseteq> set xs"
  by (auto simp: sql_limit_def dest: in_set_takeD)

lemma sql_limit_distinct: "distinct (map f xs) \<Longrightarrow> distinct (map f (sql_limit n xs))"
  by (simp add: sql_limit_def take_map[symmetric])

lemma sql_limit_all: "n < 0 \<or> int (length xs) \<le> n \<Longrightarrow> sql_limit n xs = xs"
  by (auto simp: sql_limit_def)

lemma top_tag_rows_sorted:
  assumes "count_order_ok (order_by_count_desc c)"
  shows "sorted_wrt (\<lambda>a b. row_count a \<ge> row_count b) (top_tag_rows e c p rec k m)"
  using assms
  by (simp add: top_tag_rows_def Let_def select_tag_counts_def count_order_ok_def sql_limit_sorted)

text \<open>
  Claim C5 does not hold: the query sorts by count only. On a folder whose image
  carries the tags 1 and 2 once each, an engine that sorts by count and returns
  rows of equal count in the other order makes \<^verbatim>\<open>get_top_tags\<close> return tag 2 before
  tag 1.
\<close>

theorem top_tags_order_counterexample:
  "engine_ok (reversing_engine (tagged_catalog 2))
   \<and> map tag_id (get_top_tags (posix_env (reversing_engine (tagged_catalog 2)))
         (reversing_engine (tagged_catalog 2)) ''/pics'' True 10 None) = [2, 1]
   \<and> map tag_count (get_top_tags (posix_env (reversing_engine (tagged_catalog 2)))
         (reversing_engine (tagged_catalog 2)) ''/pics'' True 10 None) = [1, 1]"
proof -
  have a: "map tag_id (get_top_tags (posix_env (reversing_engine (tagged_catalog 2)))
         (reversing_engine (tagged_catalog 2)) ''/pics'' True 10 None) = [2, 1]" by code_simp
  have b: "map tag_count (get_top_tags (posix_env (reversing_engine (tagged_catalog 2)))
         (reversing_engine (tagged_catalog 2)) ''/pics'' True 10 None) = [1, 1]" by code_simp
  from engine_ok_reversing a b show ?thesis by (intro conjI)
qed

text \<open>
  Claim C5, amended. When the engine sorts by count, the entries \<^verbatim>\<open>get_top_tags\<close>
  returns are sorted by falling count. They stand in the order of the rows that reach
  the caller, and when no query fails and an image is analysed these are the first
  \<open>limit\<close> rows in the order the engine gives to the groups: the order of entries of
  equal count is the engine's.
\<close>

theorem top_tags_sorted_by_count:
  "(count_order_ok (order_by_count_desc c) \<longrightarrow>
      sorted_wrt (\<lambda>a b. tag_count a \<ge> tag_count b) (get_top_tags e c p rec k m))
   \<and> map tag_id (get_top_tags e c p rec k m) = map fst (top_tag_rows e c p rec k m)
   \<and> (faults c TagsImages = None \<and> faults c TagsCounts = None
        \<and> analyzed_rows e c (normpath e p) rec m \<noteq> [] \<longrightarrow>
      top_tag_rows e c p rec k m =
        sql_limit k (order_by_count_desc c (group_by_tag (tag_applications e c p rec m))))"
proof -
  have g: "get_top_tags e c p rec k m = entries_of (top_tag_rows e c p rec k m)"
    by (rule get_top_tags_entries)
  have a: "sorted_wrt (\<lambda>a b. tag_count a \<ge> tag_count b) (get_top_tags e c p rec k m)"
    if "count_order_ok (order_by_count_desc c)"
    unfolding g entries_of_def using top_tag_rows_sorted[OF that, of e p rec k m]
    by (simp add: sorted_wrt_map)
  have b: "map tag_id (get_top_tags e c p rec k m) = map fst (top_tag_rows e c p rec k m)"
    unfolding g by (simp add: entries_of_def comp_def)
  have d: "faults c TagsImages = None \<and> faults c TagsCounts = None
        \<and> analyzed_rows e c (normpath e p) rec m \<noteq> [] \<longrightarrow>
      top_tag_rows e c p rec k m =
        sql_limit k (order_by_count_desc c (group_by_tag (tag_applications e c p rec m)))"
    by (simp add: top_tag_rows_def Let_def select_tag_counts_def tag_applications_def)
  from a b d show ?thesis by blast
qed

theorem top_tags_sorted_by_count_witness:
  "count_order_ok (order_by_count_desc sample_catalog)
   \<and> map tag_count (get_top_tags (video_env sample_catalog) sample_catalog ''/pics'' True 10 None) = [2, 1]
   \<and> map tag_id (get_top_tags (video_env sample_catalog) sample_catalog ''/pics'' True 10 None) = [1, 2]
   \<and> sorted_wrt (\<lambda>a b. tag_count a \<ge> tag_count b)
        (get_top_tags (video_env sample_catalog) sample_catalog ''/pics'' True 10 None)
   \<and> top_tag_rows (video_env sample_catalog) sample_catalog ''/pics'' True 10 None
        = [(1, ''cat'', ''custom'', 2), (2, ''dog'', ''custom'', 1)]"
proof -
  let ?e = "video_env sample_catalog"
  have ok: "count_order_ok (order_by_count_desc sample_catalog)"
    by (simp add: sample_catalog_def empty_catalog_def count_order_ok_stable)
  have f: "faults sample_catalog TagsImages = None" "faults sample_catalog TagsCounts = None"
    by (simp_all add: sample_catalog_def empty_catalog_def)
  have ne: "analyzed_rows ?e sample_catalog (normpath ?e ''/pics'') True None \<noteq> []" by code_simp
  have v: "sql_limit 10 (order_by_count_desc sample_catalog
             (group_by_tag (tag_applications ?e sample_catalog ''/pics'' True None)))
        = [(1, ''cat'', ''custom'', 2), (2, ''dog'', ''custom'', 1)]" by code_simp
  have tc: "map tag_count (get_top_tags ?e sample_catalog ''/pics'' True 10 None) = [2, 1]"
    by code_simp
  note T = top_tags_sorted_by_count[of sample_catalog ?e "''/pics''" True 10 None]
  from T ok have s: "sorted_wrt (\<lambda>a b. tag_count a \<ge> tag_count b)
        (get_top_tags ?e sample_catalog ''/pics'' True 10 None)" by blast
  from T f ne have r: "top_tag_rows ?e sample_catalog ''/pics'' True 10 None =
      sql_limit 10 (order_by_count_desc sample_catalog
             (group_by_tag (tag_applications ?e sample_catalog ''/pics'' True None)))" by blast
  then have r': "top_tag_rows ?e sample_catalog ''/pics'' True 10 None
        = [(1, ''cat'', ''custom'', 2), (2, ''dog'', ''custom'', 1)]" unfolding v .
  from T have "map tag_id (get_top_tags ?e sample_catalog ''/pics'' True 10 None)
      = map fst (top_tag_rows ?e sample_catalog ''/pics'' True 10 None)" by blast
  then have i: "map tag_id (get_top_tags ?e sample_catalog ''/pics'' True 10 None) = [1, 2]"
    unfolding r' by simp
  from ok tc i s r' show ?thesis by (intro conjI)
qed

lemma top_tags_body_error:
  "top_tags_body e c fp rec k m = Inl ex \<Longrightarrow> \<exists>msg. ex = DatabaseError msg"
proof -
  assume a: "top_tags_body e c fp rec k m = Inl ex"
  have mr: "map_result (tag_entry_of t) rows =
      Inr (map (\<lambda>row. \<lparr>tag_id = fst row, tag_name = fst (snd row), tag_type = fst (snd (snd row)),
                  tag_count = row_count row, tag_percentage = spec_percentage (row_count row) t\<rparr>) rows)"
    for t rows by (rule map_result_total) (rule tag_entry_of_total)
  from a show ?thesis
    by (auto simp: top_tags_body_def cursor_execute_def mr Let_def
          split: option.splits if_splits simp del: map_result.simps)
qed

text \<open>
  Claim C3 does not hold: on a folder whose image carries eleven custom tags
  \<^verbatim>\<open>get_top_tags\<close> with the limit 10 returns ten entries with the count 1, while
  eleven tag applications are observed.
\<close>

theorem top_tags_counts_counterexample:
  "sum_list (map tag_count
     (get_top_tags (posix_env (tagged_catalog 11)) (tagged_catalog 11) ''/pics'' True 10 None)) = 10
   \<and> int (length (tag_applications (posix_env (tagged_catalog 11)) (tagged_catalog 11)
        ''/pics'' True None)) = 11"
  by code_simp

text \<open>
  Claim C3, amended. When the two queries do not fail and the engine sorts, the
  counts of the entries returned add up to the number of custom-tag applications,
  on the analysed media, of the tags returned; when the limit is negative or at least
  the number of distinct custom tags applied, they add up to the number of all
  custom-tag applications observed. When no custom tag is applied to the analysed
  media the result is empty, and the body never raises \<^verbatim>\<open>ZeroDivisionError\<close>.
\<close>

theorem top_tags_counts:
  assumes "faults c TagsImages = None" "faults c TagsCounts = None"
    and "count_order_ok (order_by_count_desc c)"
  shows "sum_list (map tag_count (get_top_tags e c p rec k m))
           = int (length (filter (\<lambda>l. fst (snd l) \<in> tag_id ` set (get_top_tags e c p rec k m))
                            (tag_applications e c p rec m)))
       \<and> (k < 0 \<or> int (card ((\<lambda>l. fst (snd l)) ` set (tag_applications e c p rec m))) \<le> k \<longrightarrow>
            sum_list (map tag_count (get_top_tags e c p rec k m))
              = int (length (tag_applications e c p rec m)))
       \<and> (tag_applications e c p rec m = [] \<longrightarrow> get_top_tags e c p rec k m = [])
       \<and> top_tags_body e c (normpath e p) rec k m \<noteq> Inl ZeroDivisionError"
proof -
  let ?links = "tag_applications e c p rec m"
  let ?groups = "group_by_tag ?links"
  let ?sorted = "order_by_count_desc c ?groups"
  let ?rows = "top_tag_rows e c p rec k m"
  have g: "get_top_tags e c p rec k m = entries_of ?rows" by (rule get_top_tags_entries)
  have ids: "tag_id ` set (get_top_tags e c p rec k m) = fst ` set ?rows"
  proof -
    have "tag_id ` set (entries_of ?rows) = set (map tag_id (entries_of ?rows))" by simp
    also have "map tag_id (entries_of ?rows) = map fst ?rows"
      by (simp add: entries_of_def comp_def)
    finally show ?thesis unfolding g by simp
  qed
  have cnt: "map tag_count (get_top_tags e c p rec k m) = map row_count ?rows"
    unfolding g by (rule entries_of_counts)
  from assms(3) have ms: "mset ?sorted = mset ?groups" by (simp add: count_order_ok_def)
  then have set_sorted: "set ?sorted = set ?groups" by (metis set_mset_mset)
  from ms have "mset (map fst ?sorted) = mset (map fst ?groups)" by (metis mset_map)
  then have dist_sorted: "distinct (map fst ?sorted)"
    using group_by_tag_distinct[of ?links] by (metis mset_eq_imp_distinct_iff)
  have len_groups: "length ?groups = card ((\<lambda>l. fst (snd l)) ` set ?links)"
  proof -
    have "length ?groups = length (map fst ?groups)" by simp
    also have "\<dots> = card (set (map fst ?groups))"
      using group_by_tag_distinct[of ?links] by (simp only: distinct_card)
    also have "\<dots> = card ((\<lambda>l. fst (snd l)) ` set ?links)"
      by (simp add: group_by_tag_ids)
    finally show ?thesis .
  qed
  from ms have len_sorted: "length ?sorted = length ?groups" by (metis size_mset)
  have sum_sorted: "sum_list (map row_count ?sorted) = int (length ?links)"
  proof -
    from ms have "mset (map row_count ?sorted) = mset (map row_count ?groups)" by (metis mset_map)
    then have "sum_list (map row_count ?sorted) = sum_list (map row_count ?groups)"
      by (metis sum_mset_sum_list)
    then show ?thesis by (simp add: group_by_tag_sum)
  qed
  show ?thesis
  proof (cases "analyzed_rows e c (normpath e p) rec m = []")
    case True
    then have r: "?rows = []" and l: "?links = []"
      by (simp_all add: top_tag_rows_def tag_applications_def custom_links_def Let_def)
    have e: "get_top_tags e c p rec k m = []" unfolding g r by (simp add: entries_of_def)
    show ?thesis unfolding e l using top_tags_body_error[of e c "normpath e p" rec k m] by auto
  next
    case False
    with assms have r: "?rows = sql_limit k ?sorted"
      by (simp add: top_tag_rows_def Let_def select_tag_counts_def tag_applications_def)
    have sub: "set ?rows \<subseteq> set ?groups"
      unfolding r using sql_limit_set[of k ?sorted] set_sorted by simp
    have dist: "distinct (map fst ?rows)" unfolding r by (rule sql_limit_distinct[OF dist_sorted])
    have a: "sum_list (map tag_count (get_top_tags e c p rec k m))
           = int (length (filter (\<lambda>l. fst (snd l) \<in> tag_id ` set (get_top_tags e c p rec k m)) ?links))"
      unfolding cnt ids by (rule rows_sum[OF sub dist])
    have b: "sum_list (map tag_count (get_top_tags e c p rec k m)) = int (length ?links)"
      if "k < 0 \<or> int (card ((\<lambda>l. fst (snd l)) ` set ?links)) \<le> k"
    proof -
      from that have "k < 0 \<or> int (length ?sorted) \<le> k" by (simp add: len_sorted len_groups)
      from sql_limit_all[OF this] have "?rows = ?sorted" by (simp add: r)
      then show ?thesis unfolding cnt by (simp add: sum_sorted)
    qed
    have d: "get_top_tags e c p rec k m = []" if "?links = []"
    proof -
      from that have "?groups = []" by (simp add: group_by_tag_def)
      with sub have "?rows = []" by simp
      then show ?thesis unfolding g by (simp add: entries_of_def)
    qed
    have z: "top_tags_body e c (normpath e p) rec k m \<noteq> Inl ZeroDivisionError"
      using top_tags_body_error[of e c "normpath e p" rec k m] by auto
    from a b d z show ?thesis by blast
  qed
qed

theorem top_tags_counts_witness:
  "faults sample_catalog TagsImages = None \<and> faults sample_catalog TagsCounts = None
   \<and> count_order_ok (order_by_count_desc sample_catalog)
   \<and> int (card ((\<lambda>l. fst (snd l)) `
        set (tag_applications (video_env sample_catalog) sample_catalog ''/pics'' True None))) = 2
   \<and> int (length (tag_applications (video_env sample_catalog) sample_catalog ''/pics'' True None)) = 3
   \<and> sum_list (map tag_count
        (get_top_tags (video_env sample_catalog) sample_catalog ''/pics'' True 10 None)) = 3"
proof -
  let ?e = "video_env sample_catalog"
  have ok: "count_order_ok (order_by_count_desc sample_catalog)"
    by (simp add: sample_catalog_def empty_catalog_def count_order_ok_stable)
  have f: "faults sample_catalog TagsImages = None" "faults sample_catalog TagsCounts = None"
    by (simp_all add: sample_catalog_def empty_catalog_def)
  have cd: "int (card ((\<lambda>l. fst (snd l)) `
        set (tag_applications ?e sample_catalog ''/pics'' True None))) = 2" by code_simp
  have ln: "int (length (tag_applications ?e sample_catalog ''/pics'' True None)) = 3"
    by code_simp
  note T = top_tags_counts[OF f ok, of ?e "''/pics''" True 10 None]
  from cd have "int (card ((\<lambda>l. fst (snd l)) `
        set (tag_applications ?e sample_catalog ''/pics'' True None))) \<le> 10" by simp
  with T have "sum_list (map tag_count (get_top_tags ?e sample_catalog ''/pics'' True 10 None))
      = int (length (tag_applications ?e sample_catalog ''/pics'' True None))" by blast
  then have s: "sum_list (map tag_count (get_top_tags ?e sample_catalog ''/pics'' True 10 None)) = 3"
    unfolding ln .
  from f ok cd ln s show ?thesis by (intro conjI)
qed

section \<open>Properties of the aggregation\<close>

lemma map_result_word_lower_error:
  "map_result word_lower ws = Inl ex \<Longrightarrow> ex = AttributeError ''lower''"
proof (induction ws)
  case Nil
  then show ?case by simp
next
  case (Cons w ws)
  then show ?case by (auto simp: word_lower_def split: json.splits sum.splits)
qed

lemma get_stopwords_error:
  assumes "get_stopwords c = Inl ex"
  shows "(\<exists>msg. ex = DatabaseError msg) \<or> ex = AttributeError ''lower''"
proof (cases "faults c GetSetting")
  case (Some msg)
  with assms show ?thesis by (auto simp: get_stopwords_def get_setting_def cursor_execute_def)
next
  case None
  with assms obtain ws where "map_result word_lower ws = Inl ex"
    by (auto simp: get_stopwords_def get_setting_def cursor_execute_def
          split: option.splits sum.splits json.splits list.splits simp del: map_result.simps)
  then show ?thesis by (auto dest: map_result_word_lower_error)
qed

lemma analyze_prompt_words_ok:
  "get_stopwords c = Inr sw \<Longrightarrow> \<exists>pa. analyze_prompt_words e c p rec k m = Inr pa"
  by (simp add: analyze_prompt_words_def split: sum.splits)

lemma analyze_prompt_words_fault:
  "get_stopwords c = Inr sw \<Longrightarrow> faults c PromptRows = Some msg \<Longrightarrow>
   analyze_prompt_words e c p rec k m =
     Inr \<lparr>total_prompts_analyzed = 0, total_words_found = None, top_words = [],
          pa_error = Some msg\<rparr>"
  by (simp add: analyze_prompt_words_def prompt_words_body_def cursor_execute_def)

lemma get_media_stats_fault:
  "faults c MediaImages = Some msg \<Longrightarrow>
   get_media_stats e c p rec m = empty_media_stats m (Some msg)"
  by (simp add: get_media_stats_def media_stats_body_def cursor_execute_def)

lemma get_media_stats_fault_tagged:
  "faults c MediaImages = None \<Longrightarrow> faults c MediaTagged = Some msg \<Longrightarrow>
   analyzed_rows e c (normpath e p) rec m \<noteq> [] \<Longrightarrow>
   get_media_stats e c p rec m = empty_media_stats m (Some msg)"
  by (simp add: get_media_stats_def media_stats_body_def cursor_execute_def analyzed_rows_def
        Let_def)

lemma get_top_tags_fault:
  "faults c TagsImages = Some msg \<or> faults c TagsCounts = Some msg \<Longrightarrow>
   get_top_tags e c p rec k m = []"
  unfolding get_top_tags_entries by (auto simp: top_tag_rows_def entries_of_def Let_def)

lemma get_metadata_summary_fault:
  "faults c MetadataRows = Some msg \<Longrightarrow>
   get_metadata_summary e c p rec m = \<lparr>models = [], sizes = [], md_error = Some msg\<rparr>"
  by (simp add: get_metadata_summary_def cursor_execute_def)

text \<open>The record \<^verbatim>\<open>compute_folder_stats\<close> returns once the stopwords were read.\<close>

lemma compute_folder_stats_ok:
  assumes "path_exists e (normpath e p)" "isdir e (normpath e p)" "get_conn e = Inr c"
    and "analyze_prompt_words e c (normpath e p) rec 20 limit = Inr pa"
  shows "compute_folder_stats e p rec im limit =
     Inr \<lparr>file_count = file_count (get_file_and_folder_counts e (normpath e p) rec),
          subfolder_count = subfolder_count (get_file_and_folder_counts e (normpath e p) rec),
          total_size_bytes = total_size_bytes (get_file_and_folder_counts e (normpath e p) rec),
          media_file_count = media_file_count (get_file_and_folder_counts e (normpath e p) rec),
          folder_path = normpath e p,
          recursive = rec,
          media_stats = get_media_stats e c (normpath e p) rec limit,
          top_tags = get_top_tags e c (normpath e p) rec 10 limit,
          prompt_analysis = pa,
          metadata_summary =
            (if im then Some (get_metadata_summary e c (normpath e p) rec limit) else None),
          analysis_limit = limit\<rparr>"
  using assms by (simp add: compute_folder_stats_def Let_def)

text \<open>
  Claim C4 does not hold for the tag histogram: on a valid folder whose tag-count
  query raises, \<^verbatim>\<open>compute_folder_stats\<close> returns a record whose \<^verbatim>\<open>top_tags\<close> is the
  empty list and in which no sub-result carries an error string.
\<close>

theorem compute_folder_stats_tag_failure_counterexample:
  "path_exists (posix_env tags_locked_catalog) (normpath (posix_env tags_locked_catalog) ''/pics'')
   \<and> isdir (posix_env tags_locked_catalog) (normpath (posix_env tags_locked_catalog) ''/pics'')
   \<and> top_tags_body (posix_env tags_locked_catalog) tags_locked_catalog ''/pics'' True 10 None
        = Inl (DatabaseError ''database is locked'')
   \<and> compute_folder_stats (posix_env tags_locked_catalog) ''/pics'' True True None =
       Inr \<lparr>file_count = 0, subfolder_count = 0, total_size_bytes = 0,
            media_file_count = 0, folder_path = ''/pics'', recursive = True,
            media_stats =
              \<lparr>total_images = 1, total_videos = 0, indexed_media = 1,
               tagged_images = 1, untagged_images = 0, analyzed_count = 1,
               limit_applied = False, ms_error = None\<rparr>,
            top_tags = [],
            prompt_analysis =
              \<lparr>total_prompts_analyzed = 0, total_words_found = None,
               top_words = [], pa_error = None\<rparr>,
            metadata_summary = Some \<lparr>models = [], sizes = [], md_error = None\<rparr>,
            analysis_limit = None\<rparr>"
  by code_simp

text \<open>
  The read of the stopword setting stands before the \<^verbatim>\<open>try\<close> block of
  \<^verbatim>\<open>analyze_prompt_words\<close>: when it raises on a valid folder, the exception leaves
  \<^verbatim>\<open>compute_folder_stats\<close>.
\<close>

lemma compute_folder_stats_stopword_read_raises:
  "path_exists (posix_env settings_locked_catalog) (normpath (posix_env settings_locked_catalog) ''/pics'')
   \<and> isdir (posix_env settings_locked_catalog) (normpath (posix_env settings_locked_catalog) ''/pics'')
   \<and> compute_folder_stats (posix_env settings_locked_catalog) ''/pics'' True True None
        = Inl (DatabaseError ''database is locked'')"
  by code_simp

text \<open>
  Claim C4, amended. \<^verbatim>\<open>compute_folder_stats\<close> raises \<^verbatim>\<open>ValueError\<close> when the normalised
  path does not exist or is not a directory; on a valid path with a connection it
  raises no \<^verbatim>\<open>ValueError\<close>. On a valid path, with a connection and the stopwords
  read, it returns a record: a failing query of the media statistics, of the prompt
  analysis or of the metadata summary leaves the zeroed sub-result with the
  exception's message, and a failing query of the tag histogram leaves the empty list.
\<close>

theorem compute_folder_stats_errors:
  "((\<not> path_exists e (normpath e p) \<or> \<not> isdir e (normpath e p)) \<longrightarrow>
       compute_folder_stats e p rec im limit
         = Inl (ValueError (''Invalid folder path: '' @ normpath e p)))
   \<and> (path_exists e (normpath e p) \<and> isdir e (normpath e p) \<and> get_conn e = Inr c \<longrightarrow>
       (\<forall>msg. compute_folder_stats e p rec im limit \<noteq> Inl (ValueError msg)))
   \<and> (path_exists e (normpath e p) \<and> isdir e (normpath e p) \<and> get_conn e = Inr c
        \<and> get_stopwords c = Inr sw \<longrightarrow>
       (\<exists>r. compute_folder_stats e p rec im limit = Inr r
          \<and> (\<forall>msg. faults c MediaImages = Some msg
                \<longrightarrow> media_stats r = empty_media_stats limit (Some msg))
          \<and> (\<forall>msg. faults c MediaImages = None \<and> faults c MediaTagged = Some msg
                  \<and> analyzed_rows e c (normpath e (normpath e p)) rec limit \<noteq> []
                \<longrightarrow> media_stats r = empty_media_stats limit (Some msg))
          \<and> (\<forall>msg. faults c TagsImages = Some msg \<or> faults c TagsCounts = Some msg
                \<longrightarrow> top_tags r = [])
          \<and> (\<forall>msg. faults c PromptRows = Some msg
                \<longrightarrow> prompt_analysis r =
                      \<lparr>total_prompts_analyzed = 0, total_words_found = None, top_words = [],
                       pa_error = Some msg\<rparr>)
          \<and> (\<forall>msg. im \<and> faults c MetadataRows = Some msg
                \<longrightarrow> metadata_summary r =
                      Some \<lparr>models = [], sizes = [], md_error = Some msg\<rparr>)))"
proof -
  let ?fp = "normpath e p"
  have a: "(\<not> path_exists e ?fp \<or> \<not> isdir e ?fp) \<longrightarrow>
       compute_folder_stats e p rec im limit = Inl (ValueError (''Invalid folder path: '' @ ?fp))"
    by (simp add: compute_folder_stats_def Let_def)
  have b: "\<forall>msg. compute_folder_stats e p rec im limit \<noteq> Inl (ValueError msg)"
    if v: "path_exists e ?fp" "isdir e ?fp" "get_conn e = Inr c"
  proof (cases "get_stopwords c")
    case (Inl ex)
    then have "analyze_prompt_words e c ?fp rec 20 limit = Inl ex"
      by (simp add: analyze_prompt_words_def)
    with v have "compute_folder_stats e p rec im limit = Inl ex"
      by (simp add: compute_folder_stats_def Let_def)
    with get_stopwords_error[OF Inl] show ?thesis by auto
  next
    case (Inr sw')
    from analyze_prompt_words_ok[OF Inr] obtain pa where
      "analyze_prompt_words e c ?fp rec 20 limit = Inr pa" by blast
    from compute_folder_stats_ok[OF v this] show ?thesis by simp
  qed
  have d: "\<exists>r. compute_folder_stats e p rec im limit = Inr r
          \<and> (\<forall>msg. faults c MediaImages = Some msg
                \<longrightarrow> media_stats r = empty_media_stats limit (Some msg))
          \<and> (\<forall>msg. faults c MediaImages = None \<and> faults c MediaTagged = Some msg
                  \<and> analyzed_rows e c (normpath e ?fp) rec limit \<noteq> []
                \<longrightarrow> media_stats r = empty_media_stats limit (Some msg))
          \<and> (\<forall>msg. faults c TagsImages = Some msg \<or> faults c TagsCounts = Some msg
                \<longrightarrow> top_tags r = [])
          \<and> (\<forall>msg. faults c PromptRows = Some msg
                \<longrightarrow> prompt_analysis r =
                      \<lparr>total_prompts_analyzed = 0, total_words_found = None, top_words = [],
                       pa_error = Some msg\<rparr>)
          \<and> (\<forall>msg. im \<and> faults c MetadataRows = Some msg
                \<longrightarrow> metadata_summary r =
                      Some \<lparr>models = [], sizes = [], md_error = Some msg\<rparr>)"
    if v: "path_exists e ?fp" "isdir e ?fp" "get_conn e = Inr c" and s: "get_stopwords c = Inr sw"
  proof -
    from analyze_prompt_words_ok[OF s] obtain pa where
      pa: "analyze_prompt_words e c ?fp rec 20 limit = Inr pa" by blast
    note r = compute_folder_stats_ok[OF v pa, of im]
    have p: "\<forall>msg. faults c PromptRows = Some msg
                \<longrightarrow> pa = \<lparr>total_prompts_analyzed = 0, total_words_found = None, top_words = [],
                       pa_error = Some msg\<rparr>"
    proof (intro allI impI)
      fix msg assume "faults c PromptRows = Some msg"
      from analyze_prompt_words_fault[OF s this] pa
      show "pa = \<lparr>total_prompts_analyzed = 0, total_words_found = None, top_words = [],
                       pa_error = Some msg\<rparr>" by simp
    qed
    have m1: "\<forall>msg. faults c MediaImages = Some msg
        \<longrightarrow> get_media_stats e c ?fp rec limit = empty_media_stats limit (Some msg)"
      by (simp add: get_media_stats_fault)
    have m2: "\<forall>msg. faults c MediaImages = None \<and> faults c MediaTagged = Some msg
                  \<and> analyzed_rows e c (normpath e ?fp) rec limit \<noteq> []
        \<longrightarrow> get_media_stats e c ?fp rec limit = empty_media_stats limit (Some msg)"
      by (simp add: get_media_stats_fault_tagged)
    have t: "\<forall>msg. faults c TagsImages = Some msg \<or> faults c TagsCounts = Some msg
        \<longrightarrow> get_top_tags e c ?fp rec 10 limit = []"
      using get_top_tags_fault by blast
    have md: "\<forall>msg. im \<and> faults c MetadataRows = Some msg
        \<longrightarrow> (if im then Some (get_metadata_summary e c ?fp rec limit) else None)
              = Some \<lparr>models = [], sizes = [], md_error = Some msg\<rparr>"
      by (simp add: get_metadata_summary_fault)
    show ?thesis
      unfolding r using p m1 m2 t md by simp
  qed
  from a b d show ?thesis by blast
qed


theorem compute_folder_stats_errors_witness:
  "path_exists (posix_env locked_catalog) (normpath (posix_env locked_catalog) ''/pics/'')
   \<and> isdir (posix_env locked_catalog) (normpath (posix_env locked_catalog) ''/pics/'')
   \<and> get_conn (posix_env locked_catalog) = Inr locked_catalog
   \<and> get_stopwords locked_catalog = Inr (set DEFAULT_STOPWORDS)
   \<and> \<not> path_exists (posix_env locked_catalog) (normpath (posix_env locked_catalog) ''/nowhere'')
   \<and> compute_folder_stats (posix_env locked_catalog) ''/nowhere'' False True (Some 5)
        = Inl (ValueError ''Invalid folder path: /nowhere'')
   \<and> compute_folder_stats (posix_env locked_catalog) ''/pics/'' False True (Some 5)
        = Inr (projr (compute_folder_stats (posix_env locked_catalog) ''/pics/'' False True (Some 5)))
   \<and> media_stats (projr (compute_folder_stats (posix_env locked_catalog) ''/pics/'' False True (Some 5)))
        = empty_media_stats (Some 5) (Some ''database is locked'')
   \<and> top_tags (projr (compute_folder_stats (posix_env locked_catalog) ''/pics/'' False True (Some 5)))
        = []
   \<and> prompt_analysis (projr (compute_folder_stats (posix_env locked_catalog) ''/pics/'' False True (Some 5)))
        = \<lparr>total_prompts_analyzed = 0, total_words_found = None, top_words = [],
           pa_error = Some ''database is locked''\<rparr>
   \<and> metadata_summary (projr (compute_folder_stats (posix_env locked_catalog) ''/pics/'' False True (Some 5)))
        = Some \<lparr>models = [], sizes = [], md_error = Some ''database is locked''\<rparr>"
proof -
  let ?e = "posix_env locked_catalog"
  let ?c = "compute_folder_stats ?e ''/pics/'' False True (Some 5)"
  have n: "normpath ?e ''/pics/'' = ''/pics''" "normpath ?e ''/nowhere'' = ''/nowhere''"
    by code_simp+
  have v: "path_exists ?e (normpath ?e ''/pics/'')" "isdir ?e (normpath ?e ''/pics/'')"
    unfolding n by (simp_all add: posix_env_def)
  have nv: "\<not> path_exists ?e (normpath ?e ''/nowhere'')"
    unfolding n by (simp add: posix_env_def)
  have gc: "get_conn ?e = Inr locked_catalog" by (simp add: posix_env_def)
  have sw: "get_stopwords locked_catalog = Inr (set DEFAULT_STOPWORDS)" by code_simp
  have f: "faults locked_catalog MediaImages = Some ''database is locked''"
    "faults locked_catalog TagsImages = Some ''database is locked''"
    "faults locked_catalog PromptRows = Some ''database is locked''"
    "faults locked_catalog MetadataRows = Some ''database is locked''"
    by (simp_all add: locked_catalog_def)
  note T = compute_folder_stats_errors[of ?e _ _ True "Some 5" locked_catalog "set DEFAULT_STOPWORDS"]
  from T[of "''/nowhere''" False] nv
  have bad: "compute_folder_stats ?e ''/nowhere'' False True (Some 5)
      = Inl (ValueError (''Invalid folder path: '' @ normpath ?e ''/nowhere''))" by blast
  then have bad': "compute_folder_stats ?e ''/nowhere'' False True (Some 5)
      = Inl (ValueError ''Invalid folder path: /nowhere'')" unfolding n by simp
  from T[of "''/pics/''" False] v gc sw obtain r where
    r: "?c = Inr r"
    and m: "\<forall>msg. faults locked_catalog MediaImages = Some msg
                \<longrightarrow> media_stats r = empty_media_stats (Some 5) (Some msg)"
    and t: "\<forall>msg. faults locked_catalog TagsImages = Some msg \<or> faults locked_catalog TagsCounts = Some msg
                \<longrightarrow> top_tags r = []"
    and p: "\<forall>msg. faults locked_catalog PromptRows = Some msg
                \<longrightarrow> prompt_analysis r =
                      \<lparr>total_prompts_analyzed = 0, total_words_found = None, top_words = [],
                       pa_error = Some msg\<rparr>"
    and d: "\<forall>msg. True \<and> faults locked_catalog MetadataRows = Some msg
                \<longrightarrow> metadata_summary r =
                      Some \<lparr>models = [], sizes = [], md_error = Some msg\<rparr>"
    by blast
  from r have pr: "projr ?c = r" by simp
  from m f(1) have m': "media_stats r = empty_media_stats (Some 5) (Some ''database is locked'')"
    by blast
  from t f(2) have t': "top_tags r = []" by blast
  from p f(3) have p': "prompt_analysis r =
      \<lparr>total_prompts_analyzed = 0, total_words_found = None, top_words = [],
       pa_error = Some ''database is locked''\<rparr>" by blast
  from d f(4) have d': "metadata_summary r =
      Some \<lparr>models = [], sizes = [], md_error = Some ''database is locked''\<rparr>" by blast
  from r have r': "?c = Inr (projr ?c)" by simp
  from v gc sw nv bad' r' m' t' p' d' show ?thesis unfolding pr by (intro conjI)
qed

end
